theory Spec2Isabelle
  imports Complex_Main
begin

section \<open>The control tray of the coaching console (ControlTray.tsx)\<close>

text \<open>
  The component \<^verbatim>\<open>ControlTray\<close> is a React function component. Every render binds
  its props, its context values, the results of its hooks and its state cells to
  constants; the callbacks it creates (effect bodies, interval and timeout callbacks)
  close over the constants of the render that created them. The model keeps that
  structure: a record \<open>bindings\<close> holds the constants of one render, every callback is a
  function of the bindings it closes over, and what a callback does to the outside
  (events dispatched, messages sent, sources stopped, state cells set) is returned as a
  list of actions. Of the diagnostic output to the console, the lines that the
  validation function writes are modelled; the lines of the other callbacks are not in
  their action lists.
\<close>

subsection \<open>Data\<close>

type_synonym MediaStream = nat

datatype Game = EAFC | League_of_Legends | Street_Fighter_6

text \<open>
  The result of \<^verbatim>\<open>useWebcam()\<close> and \<^verbatim>\<open>useScreenCapture()\<close>: the two fields the
  component reads. The hooks themselves are not part of ControlTray.tsx; a callback
  reads the fields of the object that the hook returned in the render that created the
  callback.
\<close>

record UseMediaStreamResult =
  isStreaming :: bool
  stream :: "MediaStream option"

text \<open>
  The constants of one render. The record \<open>props\<close> holds what the component is given
  from outside: \<open>connected\<close> and \<open>volume\<close> come from the context, \<open>videoStream\<close> and
  \<open>activeGame\<close> are props, \<open>webcam\<close> and \<open>screenCapture\<close> are hook results. The fields
  that \<open>bindings\<close> adds are the \<^verbatim>\<open>useState\<close> cells. The context's \<^verbatim>\<open>client\<close> is an object
  (the heartbeat calls \<^verbatim>\<open>client.send\<close> without a test), so the conjunct
  \<^verbatim>\<open>client &&\<close> of the guards is always true and has no field here. Volumes are
  JavaScript numbers; they are only ever compared with a threshold and are modelled as
  reals. \<^verbatim>\<open>Date.now()\<close> is an integer number of milliseconds.
\<close>

record props =
  connected :: bool
  volume :: real
  videoStream :: "MediaStream option"
  activeGame :: "Game option"
  webcam :: UseMediaStreamResult
  screenCapture :: UseMediaStreamResult

record bindings = props +
  activeVideoStream :: "MediaStream option"
  inVolume :: real
  muted :: bool
  isAISpeaking :: bool
  isUserSpeaking :: bool
  lastUserSpeechTime :: int
  wasScreenSharing :: bool

text \<open>The object held by \<^verbatim>\<open>currentStateRef.current\<close>.\<close>

record currentState =
  cur_connected :: bool
  cur_activeGame :: "Game option"
  cur_videoStream :: "MediaStream option"
  cur_activeVideoStream :: "MediaStream option"
  cur_isAISpeaking :: bool
  cur_isUserSpeaking :: bool
  cur_lastUserSpeechTime :: int

text \<open>
  The texts handed to \<^verbatim>\<open>client.send\<close>. The templates are long string literals
  parameterised by the active game; a message is identified by its template and the game.
\<close>

datatype message =
    screenShareNotification "Game option"
  | screenShareStoppedNotification
  | validationFailureNotification
  | coachingInstruction "Game option"

datatype customEvent = screenSharingStarted | screenSharingStopped

datatype sourceKind = Webcam | ScreenCapture

datatype action =
    DispatchEvent customEvent "Game option"
  | Send message
  | Start sourceKind
  | Stop sourceKind
  | SetWasScreenSharing bool
  | SetActiveVideoStream "MediaStream option"
  | OnVideoStreamChange "MediaStream option"

subsection \<open>JavaScript truthiness\<close>

text \<open>
  \<^verbatim>\<open>a && b\<close> and \<^verbatim>\<open>a || b\<close> return one of their operands; the validation function
  combines booleans and stream handles with them and tests the result with \<^verbatim>\<open>if\<close>.
\<close>

datatype jsval = JSBool bool | JSNull | JSObject MediaStream

fun truthy :: "jsval \<Rightarrow> bool" where
  "truthy (JSBool b) = b"
| "truthy JSNull = False"
| "truthy (JSObject h) = True"

definition js_and :: "jsval \<Rightarrow> jsval \<Rightarrow> jsval" where
  "js_and a b = (if truthy a then b else a)"

definition js_or :: "jsval \<Rightarrow> jsval \<Rightarrow> jsval" where
  "js_or a b = (if truthy a then a else b)"

fun handle :: "MediaStream option \<Rightarrow> jsval" where
  "handle None = JSNull"
| "handle (Some h) = JSObject h"

subsection \<open>The session validator\<close>

text \<open>
  What the validation function writes to the console: first the object of its six
  inputs (the two flags as they are, the four handles through \<^verbatim>\<open>!!\<close>), then one of
  two lines for its verdict.
\<close>

datatype consoleLine =
    validationDebug bool bool bool bool bool bool
  | validationPassed
  | validationFailed

text \<open>The function with its console output, and the value it returns.\<close>

definition validateScreenSharingStateLogged :: "bindings \<Rightarrow> consoleLine list \<times> bool" where
  "validateScreenSharingStateLogged c =
     (let debug =
            validationDebug
              (isStreaming (screenCapture c)) (truthy (handle (stream (screenCapture c))))
              (isStreaming (webcam c)) (truthy (handle (stream (webcam c))))
              (truthy (handle (videoStream c))) (truthy (handle (activeVideoStream c)));
          isScreenCaptureActive =
            js_and (JSBool (isStreaming (screenCapture c))) (handle (stream (screenCapture c)));
          isWebcamActive =
            js_and (JSBool (isStreaming (webcam c))) (handle (stream (webcam c)));
          hasActiveVideoStream = js_or (handle (videoStream c)) (handle (activeVideoStream c));
          isActiveScreenSharing =
            js_or (js_or isScreenCaptureActive isWebcamActive) hasActiveVideoStream
      in if truthy isActiveScreenSharing then ([debug, validationPassed], True)
         else ([debug, validationFailed], False))"

definition validateScreenSharingState :: "bindings \<Rightarrow> bool" where
  "validateScreenSharingState c = snd (validateScreenSharingStateLogged c)"

text \<open>The guard \<^verbatim>\<open>if (client && connected && !muted) client.send([{ text }])\<close>.\<close>

definition sendIfLive :: "bindings \<Rightarrow> message \<Rightarrow> action list" where
  "sendIfLive c m = (if connected c \<and> \<not> muted c then [Send m] else [])"

text \<open>The callback of \<^verbatim>\<open>validationInterval\<close> (every 5000 ms): the forced stop.\<close>

definition validationTick :: "bindings \<Rightarrow> action list" where
  "validationTick c =
     (let isActuallyScreenSharing = validateScreenSharingState c
      in if wasScreenSharing c \<and> \<not> isActuallyScreenSharing
         then [SetWasScreenSharing False]
              @ (if isStreaming (screenCapture c) then [Stop ScreenCapture] else [])
              @ (if isStreaming (webcam c) then [Stop Webcam] else [])
              @ [DispatchEvent screenSharingStopped (activeGame c)]
              @ sendIfLive c validationFailureNotification
         else [])"

text \<open>
  The callback of the settle timeout (1000 ms after a render that validates while
  \<open>wasScreenSharing\<close> is false). Its argument is what the callback reads when it runs.
\<close>

definition settleTimeout :: "bindings \<Rightarrow> action list" where
  "settleTimeout c =
     (if validateScreenSharingState c
      then [DispatchEvent screenSharingStarted (activeGame c), SetWasScreenSharing True]
           @ sendIfLive c (screenShareNotification (activeGame c))
      else [])"

text \<open>
  The body of the main effect after it has registered \<^verbatim>\<open>validationInterval\<close>: the
  actions it performs itself, whether it registers a settle timeout, and whether it
  registers the heartbeat interval.
\<close>

record effectOutcome =
  performed :: "action list"
  setsTimeout :: bool
  setsTickInterval :: bool

definition mainEffect :: "bindings \<Rightarrow> effectOutcome" where
  "mainEffect c =
     (let isCurrentlyScreenSharing = validateScreenSharingState c
      in \<lparr> performed =
             (if isCurrentlyScreenSharing \<and> \<not> wasScreenSharing c then []
              else if \<not> isCurrentlyScreenSharing \<and> wasScreenSharing c
              then [DispatchEvent screenSharingStopped (activeGame c), SetWasScreenSharing False]
                   @ sendIfLive c screenShareStoppedNotification
              else []),
           setsTimeout = (isCurrentlyScreenSharing \<and> \<not> wasScreenSharing c),
           setsTickInterval = isCurrentlyScreenSharing \<rparr>)"

text \<open>
  The callback of \<^verbatim>\<open>tickInterval\<close> (every 10000 ms): the heartbeat. It reads the
  sources and the game from its closure, the speech state from the ref, and the clock.
\<close>

definition heartbeatTick :: "bindings \<Rightarrow> currentState \<Rightarrow> int \<Rightarrow> action list" where
  "heartbeatTick c current now =
     (if \<not> isStreaming (screenCapture c) \<and> \<not> isStreaming (webcam c) then []
      else
        let isSomeoneCurrentlySpeaking = cur_isAISpeaking current \<or> cur_isUserSpeaking current;
            timeSinceLastUserSpeech = now - cur_lastUserSpeechTime current;
            shouldAllowSystemCommand = timeSinceLastUserSpeech > 10000
        in if \<not> isSomeoneCurrentlySpeaking \<and> shouldAllowSystemCommand
           then [Send (coachingInstruction (activeGame c))]
           else [])"

subsection \<open>The speech activity tracker\<close>

text \<open>
  The two effects that derive the speaking flags. An effect reads the constants \<open>c\<close> of
  its render and sets state cells; \<open>p\<close> is the state the next render will see.
\<close>

definition aiSpeakingEffect :: "bindings \<Rightarrow> bindings \<Rightarrow> bindings" where
  "aiSpeakingEffect c p = p\<lparr>isAISpeaking := (volume c > 0.01)\<rparr>"

definition userSpeakingEffect :: "int \<Rightarrow> bindings \<Rightarrow> bindings \<Rightarrow> bindings" where
  "userSpeakingEffect now c p =
     (let volumeThreshold = 0.015;
          currentlyUserSpeaking = inVolume c > volumeThreshold
      in if currentlyUserSpeaking \<noteq> isUserSpeaking c
         then (let p' = p\<lparr>isUserSpeaking := currentlyUserSpeaking\<rparr>
               in if currentlyUserSpeaking then p'\<lparr>lastUserSpeechTime := now\<rparr> else p')
         else p)"

subsection \<open>The frame sampler\<close>

text \<open>
  \<^verbatim>\<open>videoWidth\<close> and \<^verbatim>\<open>videoHeight\<close> are unsigned integers. Assigning
  \<^verbatim>\<open>video.videoWidth * 0.25\<close> to \<^verbatim>\<open>canvas.width\<close> (an unsigned integer attribute)
  drops the fraction, so the canvas is a quarter of the video, rounded down.
  \<^verbatim>\<open>canvas.toDataURL\<close> gives the JPEG encoding of the canvas, which is identified here
  by the size of the canvas; for a canvas with no pixels (width zero or height zero) it
  gives \<^verbatim>\<open>"data:,"\<close>, and what follows the comma, the data that is sent, is the empty
  string.
\<close>

record HTMLVideoElement =
  videoWidth :: nat
  videoHeight :: nat

datatype imageData = emptyString | jpegOfCanvas nat nat

definition toDataURL :: "nat \<Rightarrow> nat \<Rightarrow> imageData" where
  "toDataURL width height =
     (if width = 0 \<or> height = 0 then emptyString else jpegOfCanvas width height)"

text \<open>A part handed to \<^verbatim>\<open>client.sendRealtimeInput\<close> with the mime type image/jpeg.\<close>

datatype realtimeInput = ImageJpeg imageData

record frameOutcome =
  sent :: "realtimeInput list"
  rescheduled :: bool

definition sendVideoFrame :: "bool \<Rightarrow> HTMLVideoElement option \<Rightarrow> bool \<Rightarrow> frameOutcome" where
  "sendVideoFrame isConnected video canvas =
     (case video of
        None \<Rightarrow> \<lparr>sent = [], rescheduled = False\<rparr>
      | Some v \<Rightarrow>
          if \<not> canvas then \<lparr>sent = [], rescheduled = False\<rparr>
          else
            let canvas_width = videoWidth v div 4;
                canvas_height = videoHeight v div 4
            in \<lparr>sent = (if canvas_width + canvas_height > 0
                        then [ImageJpeg (toDataURL canvas_width canvas_height)] else []),
                rescheduled = isConnected\<rparr>)"

subsection \<open>Switching streams\<close>

text \<open>
  Modelled from the spec: the capture source adapters (the hooks \<^verbatim>\<open>useWebcam\<close> and
  \<^verbatim>\<open>useScreenCapture\<close> are not in ControlTray.tsx). The state of the adapters is the
  liveness flag of each; \<^verbatim>\<open>start()\<close> either resolves with a stream handle and marks its
  source streaming, or rejects and leaves it as it was; \<^verbatim>\<open>stop()\<close> marks its source not
  streaming.
\<close>

definition adapterStart ::
  "sourceKind \<Rightarrow> MediaStream option \<Rightarrow> (sourceKind \<Rightarrow> bool) \<Rightarrow> (sourceKind \<Rightarrow> bool)" where
  "adapterStart k outcome on = (case outcome of None \<Rightarrow> on | Some mediaStream \<Rightarrow> on(k := True))"

definition adapterStop :: "sourceKind \<Rightarrow> (sourceKind \<Rightarrow> bool) \<Rightarrow> (sourceKind \<Rightarrow> bool)" where
  "adapterStop k on = on(k := False)"

definition videoStreams :: "sourceKind list" where
  "videoStreams = [Webcam, ScreenCapture]"

text \<open>
  \<^verbatim>\<open>changeStreams(next)\<close>, run to completion. \<open>outcome\<close> is what \<^verbatim>\<open>next.start()\<close>
  settles to: a stream handle, or \<open>None\<close> when it rejects (the rejection is caught and
  logged).
\<close>

definition changeStreams ::
  "sourceKind option \<Rightarrow> MediaStream option \<Rightarrow> (sourceKind \<Rightarrow> bool)
     \<Rightarrow> action list \<times> (sourceKind \<Rightarrow> bool)" where
  "changeStreams next outcome on =
     (let (acts, on') =
            (case next of
               Some k \<Rightarrow>
                 (case outcome of
                    Some mediaStream \<Rightarrow>
                      ([Start k, SetActiveVideoStream (Some mediaStream),
                        OnVideoStreamChange (Some mediaStream)],
                       adapterStart k outcome on)
                  | None \<Rightarrow> ([Start k], adapterStart k outcome on))
             | None \<Rightarrow> ([SetActiveVideoStream None, OnVideoStreamChange None], on));
          others = filter (\<lambda>msr. Some msr \<noteq> next) videoStreams
      in (acts @ map Stop others, fold adapterStop others on'))"

subsection \<open>The component as a transition system\<close>

text \<open>
  What persists between callbacks: the constants of the last committed render (which
  carry the current value of every state cell), the object in \<^verbatim>\<open>currentStateRef\<close>, the
  closures of the two intervals when they are registered, and the closures of the settle
  timeouts that are pending, oldest first, each with the time at which it was
  registered. The cleanup of the main effect clears the two intervals; nothing clears a
  timeout.
\<close>

record tray =
  rendered :: bindings
  currentStateRef :: currentState
  tickInterval :: "(int \<times> bindings) option"
  validationInterval :: "(int \<times> bindings) option"
  timeouts :: "(int \<times> bindings) list"

definition refOf :: "bindings \<Rightarrow> currentState" where
  "refOf c = \<lparr> cur_connected = connected c, cur_activeGame = activeGame c,
               cur_videoStream = videoStream c, cur_activeVideoStream = activeVideoStream c,
               cur_isAISpeaking = isAISpeaking c, cur_isUserSpeaking = isUserSpeaking c,
               cur_lastUserSpeechTime = lastUserSpeechTime c \<rparr>"

text \<open>
  The dependency list of the main effect. \<^verbatim>\<open>client\<close> and \<^verbatim>\<open>videoRef\<close> keep their
  identity and are left out. The hook results are compared as values here; a hook that
  builds a new object on every render makes the effect run on every render, which the
  flag \<open>fresh\<close> of \<open>runEffects\<close> stands for.
\<close>

definition mainDeps :: "bindings \<Rightarrow>
    (bool \<times> bool \<times> MediaStream option \<times> Game option \<times> MediaStream option)
    \<times> (bool \<times> bool \<times> bool \<times> bool \<times> bool \<times> int)
    \<times> UseMediaStreamResult \<times> UseMediaStreamResult" where
  "mainDeps c =
     ((connected c, muted c, videoStream c, activeGame c, activeVideoStream c),
      (isStreaming (screenCapture c), isStreaming (webcam c), wasScreenSharing c,
       isAISpeaking c, isUserSpeaking c, lastUserSpeechTime c),
      screenCapture c, webcam c)"

fun setStates :: "action list \<Rightarrow> bindings \<Rightarrow> bindings" where
  "setStates [] p = p"
| "setStates (SetWasScreenSharing v # acts) p = setStates acts (p\<lparr>wasScreenSharing := v\<rparr>)"
| "setStates (a # acts) p = setStates acts p"

text \<open>
  One commit: the render with constants \<open>c\<close> follows the render \<open>rendered s\<close>, and every
  effect whose dependencies changed runs (every effect when \<open>first\<close>, the mount). The
  result is the actions performed, the new registrations, and the state cells as the
  effects have set them.
\<close>

definition speechEffects :: "bool \<Rightarrow> int \<Rightarrow> bindings \<Rightarrow> bindings \<Rightarrow> bindings" where
  "speechEffects first now prev c =
     (let p = (if first \<or> volume c \<noteq> volume prev then aiSpeakingEffect c c else c)
      in if first \<or> inVolume c \<noteq> inVolume prev \<or> isUserSpeaking c \<noteq> isUserSpeaking prev
         then userSpeakingEffect now c p else p)"

definition runEffects ::
  "bool \<Rightarrow> bool \<Rightarrow> int \<Rightarrow> tray \<Rightarrow> bindings \<Rightarrow> action list \<times> tray \<times> bindings" where
  "runEffects first fresh now s c =
     (let prev = rendered s;
          s1 = s\<lparr> rendered := c,
                  currentStateRef :=
                    (if first \<or> refOf c \<noteq> refOf prev then refOf c else currentStateRef s) \<rparr>;
          p = speechEffects first now prev c
      in if first \<or> fresh \<or> mainDeps c \<noteq> mainDeps prev
         then (let out = mainEffect c
               in (performed out,
                   s1\<lparr> validationInterval := Some (now, c),
                       tickInterval := (if setsTickInterval out then Some (now, c) else None),
                       timeouts := timeouts s @ (if setsTimeout out then [(now, c)] else []) \<rparr>,
                   setStates (performed out) p))
         else ([], s1, p))"

text \<open>
  The termination measure of the render loop: how many of the effects can still set a
  state cell.
\<close>

definition unsettled :: "bindings \<Rightarrow> bindings \<Rightarrow> nat" where
  "unsettled prev c =
     (if volume c \<noteq> volume prev then 1 else 0)
     + (if (inVolume c > 0.015) \<noteq> isUserSpeaking c then 1 else 0)
     + (if wasScreenSharing c then 1 else 0)"

text \<open>
  A state cell set by an effect makes the component render again; the loop ends with the
  first commit whose effects leave the state as it is.
\<close>

function rerender :: "bool \<Rightarrow> int \<Rightarrow> tray \<Rightarrow> bindings \<Rightarrow> action list \<times> tray" where
  "rerender fresh now s c =
     (case runEffects False fresh now s c of
        (acts, s', p) \<Rightarrow>
          if p = c then (acts, s')
          else (case rerender fresh now s' p of (acts', s'') \<Rightarrow> (acts @ acts', s'')))"
  by pat_completeness auto

text \<open>
  A state cell set from outside an effect (an event handler, a timer callback): React
  renders again unless the cell keeps its value.
\<close>

definition setState :: "bool \<Rightarrow> int \<Rightarrow> tray \<Rightarrow> bindings \<Rightarrow> action list \<times> tray" where
  "setState fresh now s p = (if p = rendered s then ([], s) else rerender fresh now s p)"

definition afterCallback :: "bool \<Rightarrow> int \<Rightarrow> tray \<Rightarrow> action list \<Rightarrow> action list \<times> tray" where
  "afterCallback fresh now s acts =
     (case setState fresh now s (setStates acts (rendered s)) of
        (acts', s') \<Rightarrow> (acts @ acts', s'))"

definition withProps :: "props \<Rightarrow> bindings \<Rightarrow> bindings" where
  "withProps q c =
     c\<lparr> connected := connected q, volume := volume q, videoStream := videoStream q,
        activeGame := activeGame q, webcam := webcam q, screenCapture := screenCapture q \<rparr>"

text \<open>
  What can happen to the mounted component: it is rendered with new props, context
  values and hook results; the audio recorder reports a volume; the microphone button is
  pressed; \<^verbatim>\<open>changeStreams\<close> sets the active video stream (its other updates arrive
  as hook results and as the prop \<open>videoStream\<close> in the same render); one of the two
  intervals fires; the oldest pending settle timeout fires (all have the same delay). A
  commit, the effects it runs and the renders they cause are one step: no timer fires in
  between.
\<close>

datatype event =
    NewProps props
  | VolumeSample real
  | MicButton
  | StreamsChanged props "MediaStream option"
  | ValidationIntervalFires
  | TickIntervalFires
  | TimeoutFires

fun step :: "bool \<Rightarrow> int \<Rightarrow> event \<Rightarrow> tray \<Rightarrow> action list \<times> tray" where
  "step fresh now (NewProps q) s = rerender fresh now s (withProps q (rendered s))"
| "step fresh now (VolumeSample v) s = setState fresh now s ((rendered s)\<lparr>inVolume := v\<rparr>)"
| "step fresh now MicButton s =
     setState fresh now s ((rendered s)\<lparr>muted := \<not> muted (rendered s)\<rparr>)"
| "step fresh now (StreamsChanged q h) s =
     setState fresh now s ((withProps q (rendered s))\<lparr>activeVideoStream := h\<rparr>)"
| "step fresh now ValidationIntervalFires s =
     (case validationInterval s of
        None \<Rightarrow> ([], s)
      | Some (registered, c) \<Rightarrow> afterCallback fresh now s (validationTick c))"
| "step fresh now TickIntervalFires s =
     (case tickInterval s of
        None \<Rightarrow> ([], s)
      | Some (registered, c) \<Rightarrow> (heartbeatTick c (currentStateRef s) now, s))"
| "step fresh now TimeoutFires s =
     (case timeouts s of
        [] \<Rightarrow> ([], s)
      | (registered, c) # pending \<Rightarrow>
          afterCallback fresh now (s\<lparr>timeouts := pending\<rparr>) (settleTimeout c))"

text \<open>The first render: the initial values of the state cells and of the ref.\<close>

definition initialBindings :: "props \<Rightarrow> bindings" where
  "initialBindings q =
     \<lparr> connected = connected q, volume = volume q, videoStream = videoStream q,
       activeGame = activeGame q, webcam = webcam q, screenCapture = screenCapture q,
       activeVideoStream = None, inVolume = 0, muted = False, isAISpeaking = False,
       isUserSpeaking = False, lastUserSpeechTime = 0, wasScreenSharing = False \<rparr>"

definition initialRef :: currentState where
  "initialRef =
     \<lparr> cur_connected = False, cur_activeGame = None, cur_videoStream = None,
       cur_activeVideoStream = None, cur_isAISpeaking = False, cur_isUserSpeaking = False,
       cur_lastUserSpeechTime = 0 \<rparr>"

definition mount :: "bool \<Rightarrow> int \<Rightarrow> props \<Rightarrow> action list \<times> tray" where
  "mount fresh now q =
     (let c = initialBindings q;
          s = \<lparr> rendered = c, currentStateRef = initialRef, tickInterval = None,
                validationInterval = None, timeouts = [] \<rparr>
      in case runEffects True fresh now s c of
           (acts, s', p) \<Rightarrow>
             if p = c then (acts, s')
             else (case rerender fresh now s' p of (acts', s'') \<Rightarrow> (acts @ acts', s'')))"

text \<open>
  An execution: the mount, then a list of events, each with the flag \<open>fresh\<close> of its
  renders and the reading of the clock. The result is everything done so far and the state.
\<close>

fun run :: "action list \<times> tray \<Rightarrow> (bool \<times> int \<times> event) list \<Rightarrow> action list \<times> tray" where
  "run (done, s) [] = (done, s)"
| "run (done, s) ((fresh, now, e) # es) =
     (case step fresh now e s of (acts, s') \<Rightarrow> run (done @ acts, s') es)"

subsection \<open>Reading an execution\<close>

text \<open>
  How often an event was dispatched, and how often \<open>wasScreenSharing\<close> went from false
  to true and from true to false, in a list of actions that starts with
  \<open>wasScreenSharing = w\<close>.
\<close>

fun notifications :: "customEvent \<Rightarrow> action list \<Rightarrow> nat" where
  "notifications e [] = 0"
| "notifications e (DispatchEvent e' g # acts) =
     (if e' = e then 1 else 0) + notifications e acts"
| "notifications e (a # acts) = notifications e acts"

fun finalWas :: "bool \<Rightarrow> action list \<Rightarrow> bool" where
  "finalWas w [] = w"
| "finalWas w (SetWasScreenSharing v # acts) = finalWas v acts"
| "finalWas w (a # acts) = finalWas w acts"

fun risingEdges :: "bool \<Rightarrow> action list \<Rightarrow> nat" where
  "risingEdges w [] = 0"
| "risingEdges w (SetWasScreenSharing v # acts) =
     (if \<not> w \<and> v then 1 else 0) + risingEdges v acts"
| "risingEdges w (a # acts) = risingEdges w acts"

fun fallingEdges :: "bool \<Rightarrow> action list \<Rightarrow> nat" where
  "fallingEdges w [] = 0"
| "fallingEdges w (SetWasScreenSharing v # acts) =
     (if w \<and> \<not> v then 1 else 0) + fallingEdges v acts"
| "fallingEdges w (a # acts) = fallingEdges w acts"

text \<open>
  The invariant of the component between steps: the closure of a registered interval
  agrees with the last render on every dependency of the main effect, and the heartbeat
  interval is registered only by a render that validates. The user-speaking flag is
  settled when it is the one the current input volume gives.
\<close>

definition userSpeechSettled :: "bindings \<Rightarrow> bool" where
  "userSpeechSettled c = (isUserSpeaking c = (inVolume c > 0.015))"

definition closuresCurrent :: "tray \<Rightarrow> bool" where
  "closuresCurrent s =
     ((case tickInterval s of
         None \<Rightarrow> True
       | Some (registered, k) \<Rightarrow>
           validateScreenSharingState k \<and> mainDeps k = mainDeps (rendered s))
      \<and> (case validationInterval s of
            None \<Rightarrow> True
          | Some (registered, k) \<Rightarrow> mainDeps k = mainDeps (rendered s)))"

text \<open>
  A sharing edge is handled when \<open>wasScreenSharing\<close> is not left set in a render that does
  not validate.
\<close>

definition edgeHandled :: "bindings \<Rightarrow> bool" where
  "edgeHandled c = (\<not> (wasScreenSharing c \<and> \<not> validateScreenSharingState c))"

text \<open>
  The effect run that registers the heartbeat interval while \<open>wasScreenSharing\<close> is
  false registers a settle timeout with it; \<open>settleAhead\<close> says that this timeout is
  still pending. The timeout is due 1000 ms after its registration, the first tick of
  the interval 10000 ms after its own: timers fire in the order in which they are due
  when no pending timeout is due before the first tick of the interval.
\<close>

definition settleAhead :: "tray \<Rightarrow> bool" where
  "settleAhead s =
     (case tickInterval s of
        None \<Rightarrow> True
      | Some (registered, k) \<Rightarrow> wasScreenSharing k \<or> (registered, k) \<in> set (timeouts s))"

definition timersInDueOrder :: "tray \<Rightarrow> bool" where
  "timersInDueOrder s =
     (case tickInterval s of
        None \<Rightarrow> True
      | Some (registered, k) \<Rightarrow>
          list_all (\<lambda>(registered', k'). registered + 10000 \<le> registered' + 1000) (timeouts s))"

subsection \<open>Values used in examples\<close>

definition notStreaming :: UseMediaStreamResult where
  "notStreaming = \<lparr>isStreaming = False, stream = None\<rparr>"

definition idle :: props where
  "idle = \<lparr> connected = True, volume = 0, videoStream = None, activeGame = Some EAFC,
             webcam = notStreaming, screenCapture = notStreaming \<rparr>"

definition sharing :: props where
  "sharing = \<lparr> connected = True, volume = 0, videoStream = Some 1, activeGame = Some EAFC,
                webcam = notStreaming,
                screenCapture = \<lparr>isStreaming = True, stream = Some 1\<rparr> \<rparr>"

text \<open>
  A session that validates through the prop \<open>videoStream\<close> alone, one whose screen
  capture claims to stream with no stream handle, and one whose webcam does.
\<close>

definition externalOnly :: bindings where
  "externalOnly = (initialBindings (idle\<lparr>videoStream := Some 1\<rparr>))\<lparr>wasScreenSharing := True\<rparr>"

definition staleSource :: bindings where
  "staleSource =
     (initialBindings (idle\<lparr>screenCapture := \<lparr>isStreaming = True, stream = None\<rparr>\<rparr>))
       \<lparr>wasScreenSharing := True\<rparr>"

definition staleWebcam :: bindings where
  "staleWebcam =
     (initialBindings (idle\<lparr>webcam := \<lparr>isStreaming = True, stream = None\<rparr>\<rparr>))
       \<lparr>wasScreenSharing := True\<rparr>"

definition quiet :: currentState where
  "quiet = initialRef\<lparr>cur_connected := True, cur_lastUserSpeechTime := 5000\<rparr>"

text \<open>
  Two executions. In \<open>doubleStart\<close> sharing starts at 5000 ms, the AI starts to speak
  300 ms later, and the two settle timeouts registered by then fire. In \<open>mutedStart\<close>
  sharing starts at 5000 ms, the microphone button is pressed 400 ms later, and the first
  settle timeout fires. In \<open>revertedStart\<close> sharing starts at 5000 ms and is stopped
  again 400 ms later, before the settle timeout fires.
\<close>

definition doubleStart :: "(bool \<times> int \<times> event) list" where
  "doubleStart =
     [(False, 5000, StreamsChanged sharing (Some 1)),
      (False, 5300, NewProps (sharing\<lparr>volume := 0.5\<rparr>)),
      (False, 6000, TimeoutFires),
      (False, 6300, TimeoutFires)]"

definition mutedStart :: "(bool \<times> int \<times> event) list" where
  "mutedStart =
     [(False, 5000, StreamsChanged sharing (Some 1)),
      (False, 5400, MicButton),
      (False, 6000, TimeoutFires)]"

definition revertedStart :: "(bool \<times> int \<times> event) list" where
  "revertedStart =
     [(False, 5000, StreamsChanged sharing (Some 1)),
      (False, 5400, StreamsChanged idle None),
      (False, 6000, TimeoutFires)]"

section \<open>Properties\<close>

subsection \<open>Truthiness and the validator\<close>

lemma truthy_js_and: "truthy (js_and a b) = (truthy a \<and> truthy b)"
  by (simp add: js_and_def)

lemma truthy_js_or: "truthy (js_or a b) = (truthy a \<or> truthy b)"
  by (simp add: js_or_def)

lemma truthy_handle: "truthy (handle h) = (h \<noteq> None)"
  by (cases h) simp_all

lemma validate_iff:
  "validateScreenSharingState c =
     ((isStreaming (screenCapture c) \<and> stream (screenCapture c) \<noteq> None)
      \<or> (isStreaming (webcam c) \<and> stream (webcam c) \<noteq> None)
      \<or> videoStream c \<noteq> None \<or> activeVideoStream c \<noteq> None)"
  by (simp add: validateScreenSharingState_def validateScreenSharingStateLogged_def Let_def
      truthy_js_and truthy_js_or truthy_handle)

subsection \<open>The render loop ends\<close>

lemma speechEffects_frame:
  "volume (speechEffects f now prev c) = volume c"
  "inVolume (speechEffects f now prev c) = inVolume c"
  "wasScreenSharing (speechEffects f now prev c) = wasScreenSharing c"
  by (simp_all add: speechEffects_def aiSpeakingEffect_def userSpeakingEffect_def Let_def)

lemma speechEffects_user:
  "isUserSpeaking (speechEffects f now prev c) = isUserSpeaking c
   \<or> isUserSpeaking (speechEffects f now prev c) = (inVolume c > 0.015)"
  by (simp add: speechEffects_def aiSpeakingEffect_def userSpeakingEffect_def Let_def)

lemma speechEffects_changed:
  "speechEffects False now prev c \<noteq> c \<Longrightarrow>
     volume c \<noteq> volume prev \<or> ((inVolume c > 0.015) \<noteq> isUserSpeaking c
       \<and> isUserSpeaking (speechEffects False now prev c) = (inVolume c > 0.015))"
  by (auto simp add: speechEffects_def aiSpeakingEffect_def userSpeakingEffect_def Let_def
      split: if_splits)

lemma setStates_mainEffect:
  "setStates (performed (mainEffect c)) p =
     (if \<not> validateScreenSharingState c \<and> wasScreenSharing c
      then p\<lparr>wasScreenSharing := False\<rparr> else p)"
  by (simp add: mainEffect_def Let_def sendIfLive_def)

lemma unsettled_decreases:
  assumes "runEffects False fresh now s c = (acts, s', p)" and "p \<noteq> c"
  shows "unsettled (rendered s') p < unsettled (rendered s) c"
proof -
  let ?q = "speechEffects False now (rendered s) c"
  have r: "rendered s' = c"
    using assms(1) by (auto simp: runEffects_def Let_def split: if_splits)
  have p: "p = ?q \<or> (wasScreenSharing c \<and> p = ?q\<lparr>wasScreenSharing := False\<rparr>)"
    using assms(1) by (auto simp: runEffects_def Let_def setStates_mainEffect split: if_splits)
  show ?thesis
  proof (cases "?q = c")
    case True
    with p assms(2) have "wasScreenSharing c" "p = c\<lparr>wasScreenSharing := False\<rparr>" by auto
    then show ?thesis by (simp add: unsettled_def r)
  next
    case False
    note ch = speechEffects_changed [OF False]
    from p show ?thesis
    proof
      assume "p = ?q"
      with ch speechEffects_user [of False now "rendered s" c] show ?thesis
        by (auto simp: unsettled_def r speechEffects_frame)
    next
      assume "wasScreenSharing c \<and> p = ?q\<lparr>wasScreenSharing := False\<rparr>"
      with ch speechEffects_user [of False now "rendered s" c] show ?thesis
        by (auto simp: unsettled_def r speechEffects_frame)
    qed
  qed
qed

termination rerender
  by (relation "measure (\<lambda>(fresh, now, s, c). unsettled (rendered s) c)")
     (auto dest: unsettled_decreases [OF sym])

declare rerender.simps [simp del]

subsection \<open>One commit and the render loop\<close>

lemma rerender_unfold:
  "runEffects False fresh now s c = (acts, s', p) \<Longrightarrow>
     rerender fresh now s c =
       (if p = c then (acts, s')
        else (acts @ fst (rerender fresh now s' p), snd (rerender fresh now s' p)))"
  by (simp add: rerender.simps split: prod.splits)

lemma rerender_induct [case_names commit]:
  assumes "\<And>fresh now s c acts s' p. runEffects False fresh now s c = (acts, s', p)
             \<Longrightarrow> (p \<noteq> c \<Longrightarrow> P fresh now s' p) \<Longrightarrow> P fresh now s c"
  shows "P fresh now s c"
proof (induction fresh now s c rule: rerender.induct)
  case (1 fresh now s c)
  obtain acts s' p where r: "runEffects False fresh now s c = (acts, s', p)"
    by (cases "runEffects False fresh now s c") auto
  show ?case
    using assms [OF r] "1.IH" [OF r [symmetric] refl] by blast
qed

lemma validate_mainDeps:
  "mainDeps c = mainDeps c' \<Longrightarrow> validateScreenSharingState c = validateScreenSharingState c'"
  by (simp add: validate_iff mainDeps_def)

lemma runEffects_rendered:
  "runEffects first fresh now s c = (acts, s', p) \<Longrightarrow> rendered s' = c"
  by (auto simp: runEffects_def Let_def split: if_splits)

lemma runEffects_closuresCurrent:
  assumes "closuresCurrent s" and "runEffects first fresh now s c = (acts, s', p)"
  shows "closuresCurrent s'"
proof (cases "first \<or> fresh \<or> mainDeps c \<noteq> mainDeps (rendered s)")
  case True
  with assms(2) show ?thesis
    by (auto simp: runEffects_def Let_def closuresCurrent_def mainEffect_def)
next
  case False
  with assms(2) have "tickInterval s' = tickInterval s"
    "validationInterval s' = validationInterval s" "rendered s' = c"
    "mainDeps c = mainDeps (rendered s)"
    by (auto simp: runEffects_def Let_def)
  with assms(1) show ?thesis
    by (auto simp: closuresCurrent_def split: option.splits)
qed

lemma rerender_closuresCurrent:
  "closuresCurrent s \<Longrightarrow> closuresCurrent (snd (rerender fresh now s c))"
proof (induction fresh now s c rule: rerender_induct)
  case (commit fresh now s c acts s' p)
  from runEffects_closuresCurrent [OF commit(3) commit(1)] have "closuresCurrent s'" .
  with commit show ?case by (simp add: rerender_unfold [OF commit(1)])
qed


subsection \<open>The invariant holds in every execution\<close>

lemma setState_closuresCurrent:
  "closuresCurrent s \<Longrightarrow> closuresCurrent (snd (setState fresh now s p))"
  by (simp add: setState_def rerender_closuresCurrent)

lemma afterCallback_closuresCurrent:
  "closuresCurrent s \<Longrightarrow> closuresCurrent (snd (afterCallback fresh now s acts))"
  using setState_closuresCurrent [of s fresh now "setStates acts (rendered s)"]
  by (auto simp: afterCallback_def split: prod.splits)

lemma closuresCurrent_timeouts:
  "closuresCurrent (s\<lparr>timeouts := ts\<rparr>) = closuresCurrent s"
  by (simp add: closuresCurrent_def split: option.splits)

lemma step_closuresCurrent:
  "closuresCurrent s \<Longrightarrow> closuresCurrent (snd (step fresh now e s))"
  by (cases e)
     (simp_all add: rerender_closuresCurrent setState_closuresCurrent
        afterCallback_closuresCurrent closuresCurrent_timeouts split: option.splits list.splits)

lemma mount_closuresCurrent: "closuresCurrent (snd (mount fresh now q))"
proof -
  let ?s = "\<lparr> rendered = initialBindings q, currentStateRef = initialRef, tickInterval = None,
                validationInterval = None, timeouts = [] \<rparr>"
  obtain acts s' p where r: "runEffects True fresh now ?s (initialBindings q) = (acts, s', p)"
    by (cases "runEffects True fresh now ?s (initialBindings q)") auto
  have "closuresCurrent ?s" by (simp add: closuresCurrent_def)
  from runEffects_closuresCurrent [OF this r] have "closuresCurrent s'" .
  then show ?thesis
    using r rerender_closuresCurrent [of s' fresh now p]
    by (auto simp: mount_def Let_def split: prod.splits)
qed

lemma run_Cons:
  "run (tr, s) ((fresh, now, e) # es) =
     run (tr @ fst (step fresh now e s), snd (step fresh now e s)) es"
  by (simp split: prod.splits)

lemma run_append: "run x (es @ es') = run (run x es) es'"
proof (induction es arbitrary: x)
  case Nil
  then show ?case by (cases x) simp
next
  case (Cons ev es)
  then show ?case by (cases x; cases ev) (simp split: prod.splits)
qed

lemma run_closuresCurrent:
  "closuresCurrent (snd x) \<Longrightarrow> closuresCurrent (snd (run x es))"
proof (induction es arbitrary: x)
  case Nil
  then show ?case by (cases x) simp
next
  case (Cons ev es)
  obtain tr s where x: "x = (tr, s)" by (cases x)
  obtain fresh now e where ev: "ev = (fresh, now, e)" by (cases ev)
  from Cons.prems x have "closuresCurrent (snd (step fresh now e s))"
    by (simp add: step_closuresCurrent)
  then show ?case
    using Cons.IH [of "(tr @ fst (step fresh now e s), snd (step fresh now e s))"]
    by (simp add: x ev run_Cons del: run.simps)
qed

lemma reachable_closuresCurrent:
  "closuresCurrent (snd (run (mount fresh now q) es))"
  by (simp add: run_closuresCurrent mount_closuresCurrent)


subsection \<open>Stopped notifications and falling edges\<close>

lemma notifications_append:
  "notifications e (a @ b) = notifications e a + notifications e b"
  by (induction e a rule: notifications.induct) simp_all

lemma finalWas_append: "finalWas w (a @ b) = finalWas (finalWas w a) b"
  by (induction w a rule: finalWas.induct) simp_all

lemma fallingEdges_append:
  "fallingEdges w (a @ b) = fallingEdges w a + fallingEdges (finalWas w a) b"
  by (induction w a rule: fallingEdges.induct) simp_all

lemma setStates_was:
  "wasScreenSharing (setStates acts p) = finalWas (wasScreenSharing p) acts"
  by (induction acts p rule: setStates.induct) simp_all

lemma setStates_frame:
  "lastUserSpeechTime (setStates acts p) = lastUserSpeechTime p"
  "inVolume (setStates acts p) = inVolume p"
  "isUserSpeaking (setStates acts p) = isUserSpeaking p"
  by (induction acts p rule: setStates.induct) simp_all

lemma mainEffect_paired:
  "notifications screenSharingStopped (performed (mainEffect c))
     = fallingEdges (wasScreenSharing c) (performed (mainEffect c))"
  by (simp add: mainEffect_def Let_def sendIfLive_def)

lemma validationTick_paired:
  "notifications screenSharingStopped (validationTick c)
     = fallingEdges (wasScreenSharing c) (validationTick c)"
  by (simp add: validationTick_def Let_def sendIfLive_def)

lemma settleTimeout_paired:
  "notifications screenSharingStopped (settleTimeout c) = fallingEdges w (settleTimeout c)"
  by (simp add: settleTimeout_def sendIfLive_def)

lemma heartbeatTick_paired:
  "notifications screenSharingStopped (heartbeatTick c r now) = fallingEdges w (heartbeatTick c r now)"
  "finalWas w (heartbeatTick c r now) = w"
  by (simp_all add: heartbeatTick_def Let_def)

lemma runEffects_paired:
  assumes "runEffects first fresh now s c = (acts, s', p)"
  shows "notifications screenSharingStopped acts = fallingEdges (wasScreenSharing c) acts
         \<and> wasScreenSharing p = finalWas (wasScreenSharing c) acts"
  using assms mainEffect_paired [of c]
  by (auto simp: runEffects_def Let_def setStates_was speechEffects_frame split: if_splits)

lemma rerender_paired:
  "notifications screenSharingStopped (fst (rerender fresh now s c))
     = fallingEdges (wasScreenSharing c) (fst (rerender fresh now s c))
   \<and> wasScreenSharing (rendered (snd (rerender fresh now s c)))
     = finalWas (wasScreenSharing c) (fst (rerender fresh now s c))"
proof (induction fresh now s c rule: rerender_induct)
  case (commit fresh now s c acts s' p)
  note one = runEffects_paired [OF commit(1)] and r = runEffects_rendered [OF commit(1)]
  show ?case
  proof (cases "p = c")
    case True
    with one r show ?thesis by (simp add: rerender_unfold [OF commit(1)])
  next
    case False
    with one commit(2) show ?thesis
      by (simp add: rerender_unfold [OF commit(1)] notifications_append fallingEdges_append
          finalWas_append)
  qed
qed

lemma afterCallback_eq:
  "afterCallback fresh now s acts =
     (if setStates acts (rendered s) = rendered s then (acts, s)
      else (acts @ fst (rerender fresh now s (setStates acts (rendered s))),
            snd (rerender fresh now s (setStates acts (rendered s)))))"
  by (simp add: afterCallback_def setState_def split: prod.splits)

lemma mount_eq:
  "runEffects True fresh now
      \<lparr> rendered = initialBindings q, currentStateRef = initialRef, tickInterval = None,
        validationInterval = None, timeouts = [] \<rparr> (initialBindings q) = (acts, s', p)
   \<Longrightarrow> mount fresh now q =
       (if p = initialBindings q then (acts, s')
        else (acts @ fst (rerender fresh now s' p), snd (rerender fresh now s' p)))"
  by (simp add: mount_def Let_def split: prod.splits)

lemma afterCallback_paired:
  assumes "notifications screenSharingStopped acts
             = fallingEdges (wasScreenSharing (rendered s)) acts"
  shows "notifications screenSharingStopped (fst (afterCallback fresh now s acts))
           = fallingEdges (wasScreenSharing (rendered s)) (fst (afterCallback fresh now s acts))
         \<and> wasScreenSharing (rendered (snd (afterCallback fresh now s acts)))
           = finalWas (wasScreenSharing (rendered s)) (fst (afterCallback fresh now s acts))"
proof (cases "setStates acts (rendered s) = rendered s")
  case True
  then have "finalWas (wasScreenSharing (rendered s)) acts = wasScreenSharing (rendered s)"
    using setStates_was [of acts "rendered s"] by simp
  with True assms show ?thesis by (simp add: afterCallback_eq)
next
  case False
  with assms rerender_paired [of fresh now s "setStates acts (rendered s)"] show ?thesis
    by (simp add: afterCallback_eq setStates_was notifications_append
        fallingEdges_append finalWas_append)
qed

lemma closuresCurrent_was:
  "closuresCurrent s \<Longrightarrow> validationInterval s = Some (r, k)
     \<Longrightarrow> wasScreenSharing k = wasScreenSharing (rendered s)"
  by (simp add: closuresCurrent_def mainDeps_def)

lemma step_paired:
  assumes "closuresCurrent s"
  shows "notifications screenSharingStopped (fst (step fresh now e s))
           = fallingEdges (wasScreenSharing (rendered s)) (fst (step fresh now e s))
         \<and> wasScreenSharing (rendered (snd (step fresh now e s)))
           = finalWas (wasScreenSharing (rendered s)) (fst (step fresh now e s))"
proof (cases e)
  case (NewProps q)
  with rerender_paired [of fresh now s "withProps q (rendered s)"] show ?thesis
    by (simp add: withProps_def)
next
  case (VolumeSample v)
  with rerender_paired [of fresh now s "(rendered s)\<lparr>inVolume := v\<rparr>"] show ?thesis
    by (simp add: setState_def)
next
  case MicButton
  with rerender_paired [of fresh now s "(rendered s)\<lparr>muted := \<not> muted (rendered s)\<rparr>"]
  show ?thesis by (simp add: setState_def)
next
  case (StreamsChanged q h)
  with rerender_paired [of fresh now s "(withProps q (rendered s))\<lparr>activeVideoStream := h\<rparr>"]
  show ?thesis by (simp add: setState_def withProps_def)
next
  case ValidationIntervalFires
  show ?thesis
  proof (cases "validationInterval s")
    case None
    with ValidationIntervalFires show ?thesis by simp
  next
    case (Some rk)
    obtain r k where rk: "rk = (r, k)" by (cases rk)
    with validationTick_paired [of k] closuresCurrent_was [OF assms Some [unfolded rk]]
      afterCallback_paired [of "validationTick k" s fresh now] ValidationIntervalFires Some
    show ?thesis by simp
  qed
next
  case TickIntervalFires
  then show ?thesis
    by (simp add: heartbeatTick_paired split: option.splits)
next
  case TimeoutFires
  show ?thesis
  proof (cases "timeouts s")
    case Nil
    with TimeoutFires show ?thesis by simp
  next
    case (Cons rk pending)
    obtain r k where rk: "rk = (r, k)" by (cases rk)
    with settleTimeout_paired [of k "wasScreenSharing (rendered s)"]
      afterCallback_paired [of "settleTimeout k" "s\<lparr>timeouts := pending\<rparr>" fresh now]
      TimeoutFires Cons
    show ?thesis by simp
  qed
qed

lemma mount_paired:
  "notifications screenSharingStopped (fst (mount fresh now q))
     = fallingEdges False (fst (mount fresh now q))
   \<and> wasScreenSharing (rendered (snd (mount fresh now q)))
     = finalWas False (fst (mount fresh now q))"
proof -
  let ?c = "initialBindings q"
  let ?s = "\<lparr> rendered = ?c, currentStateRef = initialRef, tickInterval = None,
                validationInterval = None, timeouts = [] \<rparr>"
  obtain acts s' p where r: "runEffects True fresh now ?s ?c = (acts, s', p)"
    by (cases "runEffects True fresh now ?s ?c") auto
  have w: "wasScreenSharing ?c = False" by (simp add: initialBindings_def)
  note one = runEffects_paired [OF r, unfolded w]
  show ?thesis
  proof (cases "p = ?c")
    case True
    with one runEffects_rendered [OF r] w show ?thesis
      by (simp add: mount_eq [OF r])
  next
    case False
    with one rerender_paired [of fresh now s' p] show ?thesis
      by (simp add: mount_eq [OF r] notifications_append fallingEdges_append finalWas_append)
  qed
qed

lemma run_paired:
  assumes "closuresCurrent s"
    and "notifications screenSharingStopped tr = fallingEdges False tr"
    and "wasScreenSharing (rendered s) = finalWas False tr"
  shows "notifications screenSharingStopped (fst (run (tr, s) es))
           = fallingEdges False (fst (run (tr, s) es))
         \<and> wasScreenSharing (rendered (snd (run (tr, s) es)))
           = finalWas False (fst (run (tr, s) es))"
  using assms
proof (induction es arbitrary: tr s)
  case Nil
  then show ?case by simp
next
  case (Cons ev es)
  obtain fresh now e where ev: "ev = (fresh, now, e)" by (cases ev)
  note st = step_paired [OF Cons.prems(1), of fresh now e]
  show ?case
    unfolding ev run_Cons
  proof (rule Cons.IH)
    show "closuresCurrent (snd (step fresh now e s))"
      by (rule step_closuresCurrent [OF Cons.prems(1)])
    show "notifications screenSharingStopped (tr @ fst (step fresh now e s))
            = fallingEdges False (tr @ fst (step fresh now e s))"
      using st Cons.prems(2,3) by (simp add: notifications_append fallingEdges_append)
    show "wasScreenSharing (rendered (snd (step fresh now e s)))
            = finalWas False (tr @ fst (step fresh now e s))"
      using st Cons.prems(3) by (simp add: finalWas_append)
  qed
qed

lemma execution_paired:
  "notifications screenSharingStopped (fst (run (mount fresh now q) es))
     = fallingEdges False (fst (run (mount fresh now q) es))
   \<and> wasScreenSharing (rendered (snd (run (mount fresh now q) es)))
     = finalWas False (fst (run (mount fresh now q) es))"
  using run_paired [of "snd (mount fresh now q)" "fst (mount fresh now q)" es]
    mount_closuresCurrent [of fresh now q] mount_paired [of fresh now q]
  by simp


subsection \<open>Where heartbeat messages come from\<close>

lemma runEffects_no_coaching:
  "runEffects first fresh now s c = (acts, s', p) \<Longrightarrow> Send (coachingInstruction g) \<notin> set acts"
  by (auto simp: runEffects_def Let_def mainEffect_def sendIfLive_def split: if_splits)

lemma rerender_no_coaching:
  "Send (coachingInstruction g) \<notin> set (fst (rerender fresh now s c))"
proof (induction fresh now s c rule: rerender_induct)
  case (commit fresh now s c acts s' p)
  with runEffects_no_coaching [OF commit(1), of g] show ?case
    by (simp add: rerender_unfold [OF commit(1)])
qed

lemma afterCallback_no_coaching:
  "Send (coachingInstruction g) \<notin> set acts
     \<Longrightarrow> Send (coachingInstruction g) \<notin> set (fst (afterCallback fresh now s acts))"
  by (simp add: afterCallback_eq rerender_no_coaching)

lemma step_coaching:
  assumes "closuresCurrent s"
    and "Send (coachingInstruction g) \<in> set (fst (step fresh now e s))"
  shows "e = TickIntervalFires \<and> validateScreenSharingState (rendered s)
         \<and> (isStreaming (screenCapture (rendered s)) \<or> isStreaming (webcam (rendered s)))"
proof (cases e)
  case TickIntervalFires
  with assms(2) obtain r k where k: "tickInterval s = Some (r, k)"
    and m: "Send (coachingInstruction g) \<in> set (heartbeatTick k (currentStateRef s) now)"
    by (auto split: option.splits)
  from assms(1) k have v: "validateScreenSharingState k" and d: "mainDeps k = mainDeps (rendered s)"
    by (simp_all add: closuresCurrent_def)
  from m have "isStreaming (screenCapture k) \<or> isStreaming (webcam k)"
    by (auto simp: heartbeatTick_def split: if_splits)
  with d v validate_mainDeps [OF d] TickIntervalFires show ?thesis
    by (simp add: mainDeps_def)
next
  case ValidationIntervalFires
  with assms(2) afterCallback_no_coaching [of g _ fresh now s] show ?thesis
    by (auto simp: validationTick_def Let_def sendIfLive_def split: option.splits)
next
  case TimeoutFires
  with assms(2) afterCallback_no_coaching [of g _ fresh now] show ?thesis
    by (auto simp: settleTimeout_def sendIfLive_def split: list.splits)
qed (use assms(2) rerender_no_coaching [of g fresh now s] in \<open>auto simp: setState_def split: if_splits\<close>)

subsection \<open>The time of the last user speech\<close>

lemma runEffects_pending:
  "runEffects first fresh now s c = (acts, s', p)
     \<Longrightarrow> p = setStates acts (speechEffects first now (rendered s) c)"
  by (auto simp: runEffects_def Let_def split: if_splits)

lemma speechEffects_last:
  "lastUserSpeechTime (speechEffects first now prev c) = lastUserSpeechTime c
   \<or> lastUserSpeechTime (speechEffects first now prev c) = now"
  by (simp add: speechEffects_def aiSpeakingEffect_def userSpeakingEffect_def Let_def)

lemma speechEffects_same:
  "inVolume c = inVolume prev \<Longrightarrow> isUserSpeaking c = isUserSpeaking prev
     \<Longrightarrow> lastUserSpeechTime (speechEffects False now prev c) = lastUserSpeechTime c
         \<and> isUserSpeaking (speechEffects False now prev c) = isUserSpeaking c"
  by (simp add: speechEffects_def aiSpeakingEffect_def Let_def)

lemma speechEffects_settled:
  "userSpeechSettled c
     \<Longrightarrow> lastUserSpeechTime (speechEffects first now prev c) = lastUserSpeechTime c
         \<and> isUserSpeaking (speechEffects first now prev c) = isUserSpeaking c"
  by (simp add: speechEffects_def aiSpeakingEffect_def userSpeakingEffect_def Let_def
      userSpeechSettled_def)

lemma speechEffects_start:
  "inVolume c \<noteq> inVolume prev \<Longrightarrow> \<not> isUserSpeaking c \<Longrightarrow> inVolume c > 0.015
     \<Longrightarrow> lastUserSpeechTime (speechEffects first now prev c) = now
         \<and> isUserSpeaking (speechEffects first now prev c)"
  by (simp add: speechEffects_def aiSpeakingEffect_def userSpeakingEffect_def Let_def)

lemma runEffects_last:
  "runEffects first fresh now s c = (acts, s', p)
     \<Longrightarrow> lastUserSpeechTime p = lastUserSpeechTime c \<or> lastUserSpeechTime p = now"
  using speechEffects_last [of first now "rendered s" c]
  by (auto dest!: runEffects_pending simp: setStates_frame)

lemma rerender_last:
  "lastUserSpeechTime c \<le> now \<Longrightarrow>
     lastUserSpeechTime c \<le> lastUserSpeechTime (rendered (snd (rerender fresh now s c)))
     \<and> lastUserSpeechTime (rendered (snd (rerender fresh now s c))) \<le> now"
proof (induction fresh now s c rule: rerender_induct)
  case (commit fresh now s c acts s' p)
  from runEffects_last [OF commit(1)] commit(3)
  have "lastUserSpeechTime c \<le> lastUserSpeechTime p" "lastUserSpeechTime p \<le> now" by auto
  with commit(2) runEffects_rendered [OF commit(1)] commit(3) show ?case
    by (auto simp: rerender_unfold [OF commit(1)])
qed

lemma runEffects_user_same:
  assumes "runEffects False fresh now s c = (acts, s', p)"
    and "inVolume c = inVolume (rendered s)" and "isUserSpeaking c = isUserSpeaking (rendered s)"
  shows "lastUserSpeechTime p = lastUserSpeechTime c \<and> inVolume p = inVolume c
         \<and> isUserSpeaking p = isUserSpeaking c"
  using speechEffects_same [OF assms(2,3), of now] runEffects_pending [OF assms(1)]
  by (simp add: setStates_frame speechEffects_frame)

lemma rerender_user_same:
  "inVolume c = inVolume (rendered s) \<Longrightarrow> isUserSpeaking c = isUserSpeaking (rendered s)
     \<Longrightarrow> lastUserSpeechTime (rendered (snd (rerender fresh now s c))) = lastUserSpeechTime c"
proof (induction fresh now s c rule: rerender_induct)
  case (commit fresh now s c acts s' p)
  from runEffects_user_same [OF commit(1,3,4)] runEffects_rendered [OF commit(1)] commit(2)
  show ?case
    by (auto simp: rerender_unfold [OF commit(1)])
qed

lemma runEffects_user_stable:
  assumes "runEffects False fresh now s c = (acts, s', p)" and "userSpeechSettled c"
  shows "lastUserSpeechTime p = lastUserSpeechTime c \<and> isUserSpeaking p = isUserSpeaking c
         \<and> userSpeechSettled p"
proof -
  note q = speechEffects_settled [OF assms(2), of False now "rendered s"]
  with runEffects_pending [OF assms(1)] assms(2) show ?thesis
    by (simp add: setStates_frame speechEffects_frame userSpeechSettled_def)
qed

lemma rerender_user_stable:
  "userSpeechSettled c
     \<Longrightarrow> lastUserSpeechTime (rendered (snd (rerender fresh now s c))) = lastUserSpeechTime c
         \<and> isUserSpeaking (rendered (snd (rerender fresh now s c))) = isUserSpeaking c"
proof (induction fresh now s c rule: rerender_induct)
  case (commit fresh now s c acts s' p)
  note one = runEffects_user_stable [OF commit(1,3)] and r = runEffects_rendered [OF commit(1)]
  show ?case
  proof (cases "p = c")
    case True
    with r show ?thesis by (simp add: rerender_unfold [OF commit(1)])
  next
    case False
    with commit(2) one show ?thesis by (simp add: rerender_unfold [OF commit(1)])
  qed
qed

lemma afterCallback_last:
  "lastUserSpeechTime (rendered (snd (afterCallback fresh now s acts)))
     = lastUserSpeechTime (rendered s)"
  using rerender_user_same [of "setStates acts (rendered s)" s fresh now]
  by (simp add: afterCallback_eq setStates_frame)

lemma step_last_frame:
  assumes "\<forall>v. e \<noteq> VolumeSample v"
  shows "lastUserSpeechTime (rendered (snd (step fresh now e s)))
           = lastUserSpeechTime (rendered s)"
proof (cases e)
  case (NewProps q)
  with rerender_user_same [of "withProps q (rendered s)" s fresh now] show ?thesis
    by (simp add: withProps_def)
next
  case (VolumeSample v)
  with assms show ?thesis by simp
next
  case MicButton
  with rerender_user_same [of "(rendered s)\<lparr>muted := \<not> muted (rendered s)\<rparr>" s fresh now]
  show ?thesis by (simp add: setState_def)
next
  case (StreamsChanged q h)
  with rerender_user_same [of "(withProps q (rendered s))\<lparr>activeVideoStream := h\<rparr>" s fresh now]
  show ?thesis by (simp add: setState_def withProps_def)
next
  case ValidationIntervalFires
  then show ?thesis by (simp add: afterCallback_last split: option.splits)
next
  case TickIntervalFires
  then show ?thesis by (simp split: option.splits)
next
  case TimeoutFires
  then show ?thesis by (simp add: afterCallback_last split: list.splits)
qed

lemma step_last:
  assumes "lastUserSpeechTime (rendered s) \<le> now"
  shows "lastUserSpeechTime (rendered s) \<le> lastUserSpeechTime (rendered (snd (step fresh now e s)))
         \<and> lastUserSpeechTime (rendered (snd (step fresh now e s))) \<le> now"
proof (cases "\<exists>v. e = VolumeSample v")
  case True
  then obtain v where "e = VolumeSample v" ..
  with assms rerender_last [of "(rendered s)\<lparr>inVolume := v\<rparr>" now fresh s] show ?thesis
    by (simp add: setState_def)
next
  case False
  with assms step_last_frame [of e fresh now s] show ?thesis by simp
qed

lemma step_speech_start:
  assumes "\<not> isUserSpeaking (rendered s)" and "inVolume (rendered s) \<le> 0.015" and "v > 0.015"
  shows "lastUserSpeechTime (rendered (snd (step fresh now (VolumeSample v) s))) = now
         \<and> isUserSpeaking (rendered (snd (step fresh now (VolumeSample v) s)))"
proof -
  let ?c = "(rendered s)\<lparr>inVolume := v\<rparr>"
  obtain acts s' p where r: "runEffects False fresh now s ?c = (acts, s', p)"
    by (cases "runEffects False fresh now s ?c") auto
  from assms have "inVolume ?c \<noteq> inVolume (rendered s)" by simp
  then have ne: "?c \<noteq> rendered s" by metis
  from assms have "inVolume ?c \<noteq> inVolume (rendered s)" "\<not> isUserSpeaking ?c"
    "inVolume ?c > 0.015" by simp_all
  from speechEffects_start [OF this, of False now] runEffects_pending [OF r]
  have p: "isUserSpeaking p" "lastUserSpeechTime p = now" "inVolume p = v"
    by (simp_all add: setStates_frame speechEffects_frame)
  from assms(1) have "\<not> isUserSpeaking ?c" by simp
  with p(1) have "p \<noteq> ?c" by metis
  moreover from p assms(3) have "userSpeechSettled p" by (simp add: userSpeechSettled_def)
  ultimately show ?thesis
    using p rerender_user_stable [of p fresh now s'] ne
    by (simp add: setState_def rerender_unfold [OF r])
qed

lemma mount_last:
  "0 \<le> now \<Longrightarrow> 0 \<le> lastUserSpeechTime (rendered (snd (mount fresh now q)))
     \<and> lastUserSpeechTime (rendered (snd (mount fresh now q))) \<le> now"
proof -
  assume now: "0 \<le> now"
  let ?c = "initialBindings q"
  let ?s = "\<lparr> rendered = ?c, currentStateRef = initialRef, tickInterval = None,
                validationInterval = None, timeouts = [] \<rparr>"
  obtain acts s' p where r: "runEffects True fresh now ?s ?c = (acts, s', p)"
    by (cases "runEffects True fresh now ?s ?c") auto
  have z: "lastUserSpeechTime ?c = 0" by (simp add: initialBindings_def)
  from runEffects_last [OF r] z now have "0 \<le> lastUserSpeechTime p" "lastUserSpeechTime p \<le> now"
    by auto
  with rerender_last [of p now fresh s'] runEffects_rendered [OF r] z now show ?thesis
    by (auto simp: mount_eq [OF r])
qed

lemma run_last:
  assumes "sorted (t # map (fst \<circ> snd) es)" and "lastUserSpeechTime (rendered s) \<le> t"
  shows "lastUserSpeechTime (rendered s) \<le> lastUserSpeechTime (rendered (snd (run (tr, s) es)))"
  using assms
proof (induction es arbitrary: tr s t)
  case Nil
  then show ?case by simp
next
  case (Cons ev es)
  obtain fresh now e where ev: "ev = (fresh, now, e)" by (cases ev)
  from Cons.prems ev have le: "t \<le> now" and so: "sorted (now # map (fst \<circ> snd) es)"
    by (auto simp: comp_def)
  from step_last [of s now fresh e] le Cons.prems(2)
  have st: "lastUserSpeechTime (rendered s) \<le> lastUserSpeechTime (rendered (snd (step fresh now e s)))"
    "lastUserSpeechTime (rendered (snd (step fresh now e s))) \<le> now" by auto
  from Cons.IH [OF so st(2), of "tr @ fst (step fresh now e s)"] st(1) show ?case
    unfolding ev run_Cons by simp
qed

subsection \<open>A sharing edge is handled within its step\<close>

lemma edgeHandled_mainDeps:
  "mainDeps c = mainDeps c' \<Longrightarrow> edgeHandled c = edgeHandled c'"
  using validate_mainDeps [of c c'] by (simp add: edgeHandled_def mainDeps_def)

lemma speechEffects_mainEffect_fields:
  "validateScreenSharingState (speechEffects first now prev c) = validateScreenSharingState c"
  by (simp add: validate_iff speechEffects_def aiSpeakingEffect_def userSpeakingEffect_def Let_def)

lemma runEffects_edgeHandled:
  assumes "runEffects first fresh now s c = (acts, s', p)"
    and "mainDeps c = mainDeps (rendered s) \<longrightarrow> edgeHandled c"
  shows "(mainDeps p = mainDeps c \<longrightarrow> edgeHandled p) \<and> (p = c \<longrightarrow> edgeHandled c)"
proof (cases "first \<or> fresh \<or> mainDeps c \<noteq> mainDeps (rendered s)")
  case True
  with assms(1) have p: "p = setStates (performed (mainEffect c)) (speechEffects first now (rendered s) c)"
    by (auto simp: runEffects_def Let_def)
  show ?thesis
  proof (cases "edgeHandled c")
    case True
    then have "p = speechEffects first now (rendered s) c"
      by (auto simp add: p setStates_mainEffect edgeHandled_def)
    with True show ?thesis
      by (simp add: edgeHandled_def speechEffects_mainEffect_fields speechEffects_frame)
  next
    case False
    then have "p = (speechEffects first now (rendered s) c)\<lparr>wasScreenSharing := False\<rparr>"
      "wasScreenSharing c"
      by (auto simp add: p setStates_mainEffect edgeHandled_def)
    then have "\<not> wasScreenSharing p" "wasScreenSharing c" by simp_all
    then show ?thesis by (auto simp: edgeHandled_def)
  qed
next
  case False
  with assms(1) have p: "p = speechEffects first now (rendered s) c"
    by (auto simp: runEffects_def Let_def)
  from False assms(2) have "edgeHandled c" by simp
  then show ?thesis
    by (simp add: p edgeHandled_def speechEffects_mainEffect_fields speechEffects_frame)
qed

lemma rerender_edgeHandled:
  "(mainDeps c = mainDeps (rendered s) \<longrightarrow> edgeHandled c)
     \<Longrightarrow> edgeHandled (rendered (snd (rerender fresh now s c)))"
proof (induction fresh now s c rule: rerender_induct)
  case (commit fresh now s c acts s' p)
  note one = runEffects_edgeHandled [OF commit(1,3)] and r = runEffects_rendered [OF commit(1)]
  show ?case
  proof (cases "p = c")
    case True
    with one r show ?thesis by (simp add: rerender_unfold [OF commit(1)])
  next
    case False
    with commit(2) one r show ?thesis by (simp add: rerender_unfold [OF commit(1)])
  qed
qed

lemma setStates_other:
  "setStates acts p = p\<lparr>wasScreenSharing := finalWas (wasScreenSharing p) acts\<rparr>"
  by (induction acts p rule: setStates.induct) simp_all

lemma step_edgeHandled:
  assumes "edgeHandled (rendered s)"
  shows "edgeHandled (rendered (snd (step fresh now e s)))"
proof -
  have re: "edgeHandled (rendered (snd (rerender fresh now s c)))"
    if "mainDeps c = mainDeps (rendered s) \<longrightarrow> edgeHandled c" for c s
    using that by (rule rerender_edgeHandled)
  have st: "edgeHandled (rendered (snd (setState fresh now s c)))"
    if "edgeHandled (rendered s)" for c s
    using that edgeHandled_mainDeps [of c "rendered s"] re [of c s]
    by (auto simp: setState_def)
  have cb: "edgeHandled (rendered (snd (afterCallback fresh now s acts)))"
    if "edgeHandled (rendered s)" for acts s
    using that st [of s "setStates acts (rendered s)"]
    by (auto simp: afterCallback_def split: prod.splits)
  show ?thesis
  proof (cases e)
    case (NewProps q)
    with assms edgeHandled_mainDeps [of "withProps q (rendered s)" "rendered s"]
      re [of "withProps q (rendered s)" s]
    show ?thesis by auto
  next
    case TimeoutFires
    with assms cb [of "s\<lparr>timeouts := tl (timeouts s)\<rparr>"] show ?thesis
      by (auto split: list.splits)
  qed (use assms st cb in \<open>auto split: option.splits\<close>)
qed

lemma mount_edgeHandled: "edgeHandled (rendered (snd (mount fresh now q)))"
proof -
  let ?c = "initialBindings q"
  let ?s = "\<lparr> rendered = ?c, currentStateRef = initialRef, tickInterval = None,
                validationInterval = None, timeouts = [] \<rparr>"
  obtain acts s' p where r: "runEffects True fresh now ?s ?c = (acts, s', p)"
    by (cases "runEffects True fresh now ?s ?c") auto
  have "mainDeps ?c = mainDeps (rendered ?s) \<longrightarrow> edgeHandled ?c"
    by (simp add: edgeHandled_def initialBindings_def)
  note one = runEffects_edgeHandled [OF r this] and re = runEffects_rendered [OF r]
  show ?thesis
  proof (cases "p = ?c")
    case True
    with one re show ?thesis by (simp add: mount_eq [OF r])
  next
    case False
    with one re rerender_edgeHandled [of p s' fresh now] show ?thesis
      by (simp add: mount_eq [OF r])
  qed
qed

lemma run_edgeHandled:
  "edgeHandled (rendered s) \<Longrightarrow> edgeHandled (rendered (snd (run (tr, s) es)))"
proof (induction es arbitrary: tr s)
  case Nil
  then show ?case by simp
next
  case (Cons ev es)
  obtain fresh now e where ev: "ev = (fresh, now, e)" by (cases ev)
  from Cons.IH [OF step_edgeHandled [OF Cons.prems]] show ?case
    unfolding ev run_Cons .
qed

lemma forced_stop_never_fires:
  "fst (step fresh now ValidationIntervalFires (snd (run (mount fresh0 now0 q) es))) = []"
proof -
  let ?s = "snd (run (mount fresh0 now0 q) es)"
  have e: "edgeHandled (rendered ?s)"
    using run_edgeHandled [where s = "snd (mount fresh0 now0 q)"
        and tr = "fst (mount fresh0 now0 q)" and es = es, OF mount_edgeHandled]
    by simp
  have c: "closuresCurrent ?s" by (rule reachable_closuresCurrent)
  show ?thesis
  proof (cases "validationInterval ?s")
    case None
    then show ?thesis by simp
  next
    case (Some rk)
    obtain r k where rk: "rk = (r, k)" by (cases rk)
    with Some c have "mainDeps k = mainDeps (rendered ?s)" by (simp add: closuresCurrent_def)
    with e edgeHandled_mainDeps [of k "rendered ?s"] have "validationTick k = []"
      by (auto simp: validationTick_def edgeHandled_def)
    with Some rk show ?thesis by (simp add: afterCallback_eq)
  qed
qed

subsection \<open>The settle timeout is pending until it fires\<close>

lemma runEffects_settleAhead:
  assumes "runEffects first fresh now s c = (acts, s', p)"
    and "\<not> (first \<or> fresh \<or> mainDeps c \<noteq> mainDeps (rendered s)) \<longrightarrow> settleAhead s"
  shows "settleAhead s'"
proof (cases "first \<or> fresh \<or> mainDeps c \<noteq> mainDeps (rendered s)")
  case True
  with assms(1) show ?thesis
    by (auto simp: runEffects_def Let_def settleAhead_def mainEffect_def)
next
  case False
  with assms(1) have "tickInterval s' = tickInterval s" "timeouts s' = timeouts s"
    by (auto simp: runEffects_def Let_def)
  with False assms(2) show ?thesis by (auto simp: settleAhead_def split: option.splits)
qed

lemma rerender_settleAhead:
  "(\<not> (fresh \<or> mainDeps c \<noteq> mainDeps (rendered s)) \<longrightarrow> settleAhead s)
     \<Longrightarrow> settleAhead (snd (rerender fresh now s c))"
proof (induction fresh now s c rule: rerender_induct)
  case (commit fresh now s c acts s' p)
  from runEffects_settleAhead [OF commit(1)] commit(3) have "settleAhead s'" by simp
  with commit(2) show ?case by (simp add: rerender_unfold [OF commit(1)])
qed

lemma setState_settleAhead:
  "settleAhead s \<Longrightarrow> settleAhead (snd (setState fresh now s c))"
  by (simp add: setState_def rerender_settleAhead)

lemma setStates_changes_was:
  assumes "setStates acts c \<noteq> c"
  shows "mainDeps (setStates acts c) \<noteq> mainDeps c"
proof
  assume "mainDeps (setStates acts c) = mainDeps c"
  then have "finalWas (wasScreenSharing c) acts = wasScreenSharing c"
    by (simp add: mainDeps_def setStates_was)
  then have "setStates acts c = c" by (subst setStates_other) simp
  with assms show False ..
qed

lemma afterCallback_settleAhead:
  assumes "setStates acts (rendered s) = rendered s \<longrightarrow> settleAhead s"
  shows "settleAhead (snd (afterCallback fresh now s acts))"
proof (cases "setStates acts (rendered s) = rendered s")
  case True
  with assms show ?thesis by (simp add: afterCallback_eq)
next
  case False
  from setStates_changes_was [OF False]
    rerender_settleAhead [of fresh "setStates acts (rendered s)" s now] False
  show ?thesis by (simp add: afterCallback_eq)
qed

lemma step_settleAhead:
  assumes "closuresCurrent s" and "settleAhead s"
  shows "settleAhead (snd (step fresh now e s))"
proof (cases e)
  case TimeoutFires
  show ?thesis
  proof (cases "timeouts s")
    case Nil
    with TimeoutFires assms(2) show ?thesis by simp
  next
    case (Cons rk pending)
    obtain r0 k0 where rk: "rk = (r0, k0)" by (cases rk)
    let ?s1 = "s\<lparr>timeouts := pending\<rparr>"
    have "settleAhead ?s1" if same: "setStates (settleTimeout k0) (rendered s) = rendered s"
    proof (cases "tickInterval s")
      case None
      then show ?thesis by (simp add: settleAhead_def)
    next
      case (Some rk')
      obtain r k where rk': "rk' = (r, k)" by (cases rk')
      from assms(1) Some rk' have v: "validateScreenSharingState k"
        and d: "mainDeps k = mainDeps (rendered s)" by (simp_all add: closuresCurrent_def)
      show ?thesis
      proof (cases "wasScreenSharing k \<or> (r, k) \<in> set pending")
        case True
        with Some rk' show ?thesis by (simp add: settleAhead_def)
      next
        case False
        with assms(2) Some rk' Cons rk have "k0 = k" by (auto simp: settleAhead_def)
        with v have "wasScreenSharing (setStates (settleTimeout k0) (rendered s))"
          by (simp add: setStates_was settleTimeout_def sendIfLive_def)
        with same d False show ?thesis by (simp add: mainDeps_def)
      qed
    qed
    with afterCallback_settleAhead [of "settleTimeout k0" ?s1 fresh now] TimeoutFires Cons rk
    show ?thesis by simp
  qed
qed (use assms(2) in \<open>auto simp: rerender_settleAhead setState_settleAhead
       afterCallback_settleAhead split: option.splits\<close>)

lemma mount_settleAhead: "settleAhead (snd (mount fresh now q))"
proof -
  let ?c = "initialBindings q"
  let ?s = "\<lparr> rendered = ?c, currentStateRef = initialRef, tickInterval = None,
                validationInterval = None, timeouts = [] \<rparr>"
  obtain acts s' p where r: "runEffects True fresh now ?s ?c = (acts, s', p)"
    by (cases "runEffects True fresh now ?s ?c") auto
  from runEffects_settleAhead [OF r] have "settleAhead s'" by simp
  with rerender_settleAhead [of fresh p s' now] show ?thesis
    by (simp add: mount_eq [OF r])
qed

lemma run_settleAhead:
  "closuresCurrent s \<Longrightarrow> settleAhead s \<Longrightarrow> settleAhead (snd (run (tr, s) es))"
proof (induction es arbitrary: tr s)
  case Nil
  then show ?case by simp
next
  case (Cons ev es)
  obtain fresh now e where ev: "ev = (fresh, now, e)" by (cases ev)
  from Cons.IH [OF step_closuresCurrent [OF Cons.prems(1)] step_settleAhead [OF Cons.prems]]
  show ?case unfolding ev run_Cons .
qed

lemma reachable_settleAhead: "settleAhead (snd (run (mount fresh now q) es))"
  using run_settleAhead [where s = "snd (mount fresh now q)" and tr = "fst (mount fresh now q)"
      and es = es, OF mount_closuresCurrent mount_settleAhead]
  by simp

lemma tick_after_settle:
  assumes "closuresCurrent s" and "settleAhead s" and "timersInDueOrder s"
    and "tickInterval s = Some (r, k)"
  shows "wasScreenSharing (rendered s)"
proof -
  from assms(1,4) have d: "mainDeps k = mainDeps (rendered s)" by (simp add: closuresCurrent_def)
  have "(r, k) \<notin> set (timeouts s)"
  proof
    assume "(r, k) \<in> set (timeouts s)"
    with assms(3,4) have "r + 10000 \<le> r + 1000"
      by (auto simp: timersInDueOrder_def list_all_iff)
    then show False by simp
  qed
  with assms(2,4) have "wasScreenSharing k" by (simp add: settleAhead_def)
  with d show ?thesis by (simp add: mainDeps_def)
qed

subsection \<open>The last user speech in an execution\<close>

lemma run_last_bound:
  assumes "sorted (t # map (fst \<circ> snd) es)" and "lastUserSpeechTime (rendered s) \<le> t"
  shows "lastUserSpeechTime (rendered (snd (run (tr, s) es))) \<le> last (t # map (fst \<circ> snd) es)"
  using assms
proof (induction es arbitrary: tr s t)
  case Nil
  then show ?case by simp
next
  case (Cons ev es)
  obtain fresh now e where ev: "ev = (fresh, now, e)" by (cases ev)
  from Cons.prems ev have le: "t \<le> now" and so: "sorted (now # map (fst \<circ> snd) es)"
    by (auto simp: comp_def)
  from step_last [of s now fresh e] le Cons.prems(2)
  have "lastUserSpeechTime (rendered (snd (step fresh now e s))) \<le> now" by auto
  from Cons.IH [OF so this, of "tr @ fst (step fresh now e s)"] show ?case
    unfolding ev run_Cons by simp
qed

lemma sorted_from_last:
  fixes xs :: "int list"
  assumes "sorted (xs @ ys)" and "xs \<noteq> []"
  shows "sorted (last xs # ys)"
  using assms last_in_set [OF assms(2)] by (auto simp: sorted_append)

lemma execution_last_monotone:
  assumes so: "sorted (0 # now0 # map (fst \<circ> snd) (es @ es'))"
  shows "lastUserSpeechTime (rendered (snd (run (mount fresh0 now0 q) es)))
           \<le> lastUserSpeechTime (rendered (snd (run (mount fresh0 now0 q) (es @ es'))))"
proof -
  obtain tr s1 where m: "mount fresh0 now0 q = (tr, s1)" by (cases "mount fresh0 now0 q")
  obtain tr2 s2 where r: "run (tr, s1) es = (tr2, s2)" by (cases "run (tr, s1) es")
  let ?ts = "now0 # map (fst \<circ> snd) es"
  from so have t0: "0 \<le> now0" and s0: "sorted ?ts"
    and s': "sorted (?ts @ map (fst \<circ> snd) es')"
    by (auto simp: sorted_append)
  from mount_last [OF t0, of fresh0 q] m have l1: "lastUserSpeechTime (rendered s1) \<le> now0"
    by simp
  from run_last_bound [OF s0 l1, of tr] r
  have l2: "lastUserSpeechTime (rendered s2) \<le> last ?ts" by simp
  have s2: "sorted (last ?ts # map (fst \<circ> snd) es')"
    by (rule sorted_from_last [OF s']) simp
  from run_last [OF s2 l2, of tr2] show ?thesis
    by (simp add: run_append m r)
qed

subsection \<open>The ref holds the speech state of the last render\<close>

lemma runEffects_ref:
  assumes "runEffects first fresh now s c = (acts, s', p)"
    and "\<not> first \<longrightarrow> currentStateRef s = refOf (rendered s)"
  shows "currentStateRef s' = refOf (rendered s')"
  using assms by (auto simp: runEffects_def Let_def split: if_splits)

lemma rerender_ref:
  "currentStateRef s = refOf (rendered s)
     \<Longrightarrow> currentStateRef (snd (rerender fresh now s c))
         = refOf (rendered (snd (rerender fresh now s c)))"
proof (induction fresh now s c rule: rerender_induct)
  case (commit fresh now s c acts s' p)
  from runEffects_ref [OF commit(1)] commit(3)
  have "currentStateRef s' = refOf (rendered s')" by simp
  with commit(2) show ?case by (simp add: rerender_unfold [OF commit(1)])
qed

lemma step_ref:
  assumes "currentStateRef s = refOf (rendered s)"
  shows "currentStateRef (snd (step fresh now e s)) = refOf (rendered (snd (step fresh now e s)))"
proof -
  have cb: "currentStateRef (snd (afterCallback fresh now s acts))
              = refOf (rendered (snd (afterCallback fresh now s acts)))"
    if "currentStateRef s = refOf (rendered s)" for s acts
    using that by (simp add: afterCallback_eq rerender_ref)
  show ?thesis
  proof (cases e)
    case TimeoutFires
    with assms cb [of "s\<lparr>timeouts := tl (timeouts s)\<rparr>"] show ?thesis
      by (auto split: list.splits)
  qed (use assms cb in \<open>auto simp: setState_def rerender_ref split: option.splits\<close>)
qed

lemma mount_ref:
  "currentStateRef (snd (mount fresh now q)) = refOf (rendered (snd (mount fresh now q)))"
proof -
  let ?c = "initialBindings q"
  let ?s = "\<lparr> rendered = ?c, currentStateRef = initialRef, tickInterval = None,
                validationInterval = None, timeouts = [] \<rparr>"
  obtain acts s' p where r: "runEffects True fresh now ?s ?c = (acts, s', p)"
    by (cases "runEffects True fresh now ?s ?c") auto
  from runEffects_ref [OF r] have "currentStateRef s' = refOf (rendered s')" by simp
  with rerender_ref [of s' fresh now p] show ?thesis
    by (simp add: mount_eq [OF r])
qed

lemma run_ref:
  "currentStateRef s = refOf (rendered s)
     \<Longrightarrow> currentStateRef (snd (run (tr, s) es)) = refOf (rendered (snd (run (tr, s) es)))"
proof (induction es arbitrary: tr s)
  case Nil
  then show ?case by simp
next
  case (Cons ev es)
  obtain fresh now e where ev: "ev = (fresh, now, e)" by (cases ev)
  from Cons.IH [OF step_ref [OF Cons.prems]] show ?case
    unfolding ev run_Cons .
qed

lemma reachable_ref:
  "currentStateRef (snd (run (mount fresh now q) es))
     = refOf (rendered (snd (run (mount fresh now q) es)))"
  using run_ref [where s = "snd (mount fresh now q)" and tr = "fst (mount fresh now q)"
      and es = es, OF mount_ref]
  by simp

lemma heartbeat_reads_current_speech:
  assumes "Send (coachingInstruction g)
             \<in> set (fst (step fresh now e (snd (run (mount fresh0 now0 q) es))))"
  shows "\<not> isAISpeaking (rendered (snd (run (mount fresh0 now0 q) es)))
         \<and> \<not> isUserSpeaking (rendered (snd (run (mount fresh0 now0 q) es)))
         \<and> now - lastUserSpeechTime (rendered (snd (run (mount fresh0 now0 q) es))) > 10000"
proof -
  let ?s = "snd (run (mount fresh0 now0 q) es)"
  from step_coaching [OF reachable_closuresCurrent assms] have e: "e = TickIntervalFires"
    by simp
  with assms obtain r k where "tickInterval ?s = Some (r, k)"
    and "Send (coachingInstruction g) \<in> set (heartbeatTick k (currentStateRef ?s) now)"
    by (auto split: option.splits)
  then have "\<not> cur_isAISpeaking (currentStateRef ?s) \<and> \<not> cur_isUserSpeaking (currentStateRef ?s)
      \<and> now - cur_lastUserSpeechTime (currentStateRef ?s) > 10000"
    by (auto simp: heartbeatTick_def Let_def split: if_splits)
  then show ?thesis
    by (simp add: reachable_ref refOf_def)
qed

subsection \<open>The user-speaking flag follows the input volume\<close>

lemma speechEffects_sample:
  "inVolume c \<noteq> inVolume prev \<Longrightarrow>
     isUserSpeaking (speechEffects first now prev c) = (inVolume c > 0.015)
     \<and> lastUserSpeechTime (speechEffects first now prev c)
       = (if inVolume c > 0.015 \<and> \<not> isUserSpeaking c then now else lastUserSpeechTime c)"
  by (simp add: speechEffects_def aiSpeakingEffect_def userSpeakingEffect_def Let_def)

lemma speechEffects_settles:
  "first \<or> inVolume c \<noteq> inVolume prev \<or> isUserSpeaking c \<noteq> isUserSpeaking prev
     \<or> userSpeechSettled c
   \<Longrightarrow> userSpeechSettled (speechEffects first now prev c)"
  by (auto simp add: speechEffects_def aiSpeakingEffect_def userSpeakingEffect_def Let_def
      userSpeechSettled_def)

lemma userSpeechSettled_setStates:
  "userSpeechSettled (setStates acts p) = userSpeechSettled p"
  by (simp add: userSpeechSettled_def setStates_frame)

lemma rerender_settled:
  "userSpeechSettled c \<Longrightarrow> userSpeechSettled (rendered (snd (rerender fresh now s c)))"
proof (induction fresh now s c rule: rerender_induct)
  case (commit fresh now s c acts s' p)
  note one = runEffects_user_stable [OF commit(1,3)] and r = runEffects_rendered [OF commit(1)]
  show ?case
  proof (cases "p = c")
    case True
    with r commit(3) show ?thesis by (simp add: rerender_unfold [OF commit(1)])
  next
    case False
    with commit(2) one show ?thesis by (simp add: rerender_unfold [OF commit(1)])
  qed
qed

lemma rerender_settles:
  assumes "inVolume c \<noteq> inVolume (rendered s) \<or> isUserSpeaking c \<noteq> isUserSpeaking (rendered s)
           \<or> userSpeechSettled c"
  shows "userSpeechSettled (rendered (snd (rerender fresh now s c)))"
proof -
  obtain acts s' p where r: "runEffects False fresh now s c = (acts, s', p)"
    by (cases "runEffects False fresh now s c") auto
  from speechEffects_settles [of False c "rendered s" now] assms runEffects_pending [OF r]
  have p: "userSpeechSettled p" by (auto simp: userSpeechSettled_setStates)
  show ?thesis
  proof (cases "p = c")
    case True
    with p runEffects_rendered [OF r] show ?thesis by (simp add: rerender_unfold [OF r])
  next
    case False
    with rerender_settled [OF p, of fresh now s'] show ?thesis
      by (simp add: rerender_unfold [OF r])
  qed
qed

lemma step_settled:
  assumes "userSpeechSettled (rendered s)"
  shows "userSpeechSettled (rendered (snd (step fresh now e s)))"
proof -
  have re: "userSpeechSettled (rendered (snd (rerender fresh now s c)))"
    if "inVolume c = inVolume (rendered s) \<longrightarrow> isUserSpeaking c = isUserSpeaking (rendered s)
          \<longrightarrow> userSpeechSettled c" for c s
    using that rerender_settles [of c s fresh now] by blast
  have keep: "userSpeechSettled c"
    if "inVolume c = inVolume (rendered s)" "isUserSpeaking c = isUserSpeaking (rendered s)" for c
    using that assms by (simp add: userSpeechSettled_def)
  have st: "userSpeechSettled (rendered (snd (setState fresh now s c)))"
    if "inVolume c = inVolume (rendered s) \<longrightarrow> isUserSpeaking c = isUserSpeaking (rendered s)
          \<longrightarrow> userSpeechSettled c" for c
    using that assms re [of c s] by (simp add: setState_def)
  have cb: "userSpeechSettled (rendered (snd (afterCallback fresh now s' acts)))"
    if "rendered s' = rendered s" for acts s'
  proof -
    from that assms have "userSpeechSettled (setStates acts (rendered s'))"
      by (simp add: userSpeechSettled_setStates)
    from rerender_settles [of "setStates acts (rendered s')" s' fresh now] this that assms
    show ?thesis by (simp add: afterCallback_eq)
  qed
  show ?thesis
  proof (cases e)
    case (NewProps q)
    with re [of "withProps q (rendered s)" s] keep [of "withProps q (rendered s)"]
    show ?thesis by (simp add: withProps_def)
  next
    case (VolumeSample v)
    with st [of "(rendered s)\<lparr>inVolume := v\<rparr>"] keep [of "(rendered s)\<lparr>inVolume := v\<rparr>"]
    show ?thesis by simp
  next
    case MicButton
    with st [of "(rendered s)\<lparr>muted := \<not> muted (rendered s)\<rparr>"]
      keep [of "(rendered s)\<lparr>muted := \<not> muted (rendered s)\<rparr>"]
    show ?thesis by simp
  next
    case (StreamsChanged q h)
    with st [of "(withProps q (rendered s))\<lparr>activeVideoStream := h\<rparr>"]
      keep [of "(withProps q (rendered s))\<lparr>activeVideoStream := h\<rparr>"]
    show ?thesis by (simp add: withProps_def)
  next
    case ValidationIntervalFires
    with assms cb [of s] show ?thesis by (auto split: option.splits)
  next
    case TickIntervalFires
    with assms show ?thesis by (auto split: option.splits)
  next
    case TimeoutFires
    with assms cb [of "s\<lparr>timeouts := tl (timeouts s)\<rparr>"] show ?thesis
      by (auto split: list.splits)
  qed
qed

lemma mount_settled: "userSpeechSettled (rendered (snd (mount fresh now q)))"
proof -
  let ?c = "initialBindings q"
  let ?s = "\<lparr> rendered = ?c, currentStateRef = initialRef, tickInterval = None,
                validationInterval = None, timeouts = [] \<rparr>"
  obtain acts s' p where r: "runEffects True fresh now ?s ?c = (acts, s', p)"
    by (cases "runEffects True fresh now ?s ?c") auto
  from speechEffects_settles [of True ?c "rendered ?s" now] runEffects_pending [OF r]
  have p: "userSpeechSettled p" by (simp add: userSpeechSettled_setStates)
  show ?thesis
  proof (cases "p = ?c")
    case True
    with p runEffects_rendered [OF r] show ?thesis by (simp add: mount_eq [OF r])
  next
    case False
    with rerender_settled [OF p, of fresh now s'] show ?thesis by (simp add: mount_eq [OF r])
  qed
qed

lemma run_settled:
  "userSpeechSettled (rendered s) \<Longrightarrow> userSpeechSettled (rendered (snd (run (tr, s) es)))"
proof (induction es arbitrary: tr s)
  case Nil
  then show ?case by simp
next
  case (Cons ev es)
  obtain fresh now e where ev: "ev = (fresh, now, e)" by (cases ev)
  from Cons.IH [OF step_settled [OF Cons.prems]] show ?case
    unfolding ev run_Cons .
qed

lemma reachable_settled: "userSpeechSettled (rendered (snd (run (mount fresh now q) es)))"
  using run_settled [where s = "snd (mount fresh now q)" and tr = "fst (mount fresh now q)"
      and es = es, OF mount_settled]
  by simp

lemma step_sample:
  assumes "userSpeechSettled (rendered s)"
  shows "isUserSpeaking (rendered (snd (step fresh now (VolumeSample v) s))) = (v > 0.015)
         \<and> lastUserSpeechTime (rendered (snd (step fresh now (VolumeSample v) s)))
           = (if v > 0.015 \<and> \<not> inVolume (rendered s) > 0.015 then now
              else lastUserSpeechTime (rendered s))"
proof (cases "v = inVolume (rendered s)")
  case True
  then have "(rendered s)\<lparr>inVolume := v\<rparr> = rendered s" by simp
  with True assms show ?thesis by (simp add: setState_def userSpeechSettled_def)
next
  case False
  let ?c = "(rendered s)\<lparr>inVolume := v\<rparr>"
  obtain acts s' p where r: "runEffects False fresh now s ?c = (acts, s', p)"
    by (cases "runEffects False fresh now s ?c") auto
  from False have d: "inVolume ?c \<noteq> inVolume (rendered s)" by simp
  then have ne: "?c \<noteq> rendered s" by metis
  from assms have f: "isUserSpeaking ?c = (inVolume (rendered s) > 0.015)"
    by (simp add: userSpeechSettled_def)
  from speechEffects_sample [OF d, of False now] runEffects_pending [OF r] f
  have p: "isUserSpeaking p = (v > 0.015)"
    "lastUserSpeechTime p
       = (if v > 0.015 \<and> \<not> inVolume (rendered s) > 0.015 then now
          else lastUserSpeechTime (rendered s))"
    "inVolume p = v"
    by (simp_all add: setStates_frame speechEffects_frame)
  then have sp: "userSpeechSettled p" by (simp add: userSpeechSettled_def)
  show ?thesis
  proof (cases "p = ?c")
    case True
    with p runEffects_rendered [OF r] ne show ?thesis
      by (simp add: setState_def rerender_unfold [OF r])
  next
    case False
    with p rerender_user_stable [OF sp, of fresh now s'] ne show ?thesis
      by (simp add: setState_def rerender_unfold [OF r])
  qed
qed

section \<open>The claims\<close>

text \<open>
  C1. The claim: a started notification is emitted exactly once per false-to-true edge
  that still validates at the re-check, never for a flip that reverts before the
  re-check, and never twice for one edge. The code does otherwise. In \<open>doubleStart\<close>
  one start of sharing is notified twice: the effect runs again while the first settle
  timeout is pending and registers a second one, the cleanup clears no timeout, and both
  fire. In \<open>revertedStart\<close> sharing has stopped again when the timeout fires (the last
  render does not validate and nothing has been notified yet), but the timeout validates
  the constants of the render that registered it (among them \<open>videoStream\<close> and
  \<open>activeVideoStream\<close>, which are not null there) and notifies a start, which the next
  render answers with a stop.
\<close>

theorem C1_started_twice_for_one_edge:
  "fst (run (mount False 0 idle) doubleStart) =
     [DispatchEvent screenSharingStarted (Some EAFC), SetWasScreenSharing True,
      Send (screenShareNotification (Some EAFC)),
      DispatchEvent screenSharingStarted (Some EAFC), SetWasScreenSharing True,
      Send (screenShareNotification (Some EAFC))]
   \<and> notifications screenSharingStarted (fst (run (mount False 0 idle) doubleStart)) = 2
   \<and> risingEdges False (fst (run (mount False 0 idle) doubleStart)) = 1
   \<and> \<not> validateScreenSharingState
         (rendered (snd (run (mount False 0 idle) (butlast revertedStart))))
   \<and> fst (run (mount False 0 idle) (butlast revertedStart)) = []
   \<and> fst (run (mount False 0 idle) revertedStart) =
       [DispatchEvent screenSharingStarted (Some EAFC), SetWasScreenSharing True,
        Send (screenShareNotification (Some EAFC)),
        DispatchEvent screenSharingStopped (Some EAFC), SetWasScreenSharing False,
        Send screenShareStoppedNotification]"
  by code_simp

text \<open>
  C2. The active-session state is the cell \<open>wasScreenSharing\<close>. In every execution the
  number of stopped notifications equals the number of times \<open>wasScreenSharing\<close> has
  gone from true to false (and the cell holds what the last call of its setter gave
  it). Both paths that report a stop, the
  body of the main effect and the forced stop of the validation interval, dispatch the
  event exactly once and clear \<open>wasScreenSharing\<close>; the forced stop calls \<^verbatim>\<open>stop()\<close> on
  exactly the sources that report \<open>isStreaming\<close> and clears \<open>wasScreenSharing\<close> before it
  dispatches the event.
\<close>

theorem C2_stopped_once_per_falling_edge:
  "notifications screenSharingStopped (fst (run (mount fresh now q) es))
     = fallingEdges False (fst (run (mount fresh now q) es))
   \<and> wasScreenSharing (rendered (snd (run (mount fresh now q) es)))
     = finalWas False (fst (run (mount fresh now q) es))
   \<and> (wasScreenSharing c \<and> \<not> validateScreenSharingState c \<longrightarrow>
        notifications screenSharingStopped (performed (mainEffect c)) = 1
        \<and> finalWas True (performed (mainEffect c)) = False
        \<and> notifications screenSharingStopped (validationTick c) = 1
        \<and> finalWas True (validationTick c) = False
        \<and> (Stop ScreenCapture \<in> set (validationTick c)) = isStreaming (screenCapture c)
        \<and> (Stop Webcam \<in> set (validationTick c)) = isStreaming (webcam c)
        \<and> SetWasScreenSharing False
             \<in> set (takeWhile (\<lambda>a. a \<noteq> DispatchEvent screenSharingStopped (activeGame c))
                      (validationTick c)))"
  by (simp add: execution_paired mainEffect_def validationTick_def sendIfLive_def Let_def)

theorem C2_stopped_witness:
  "notifications screenSharingStopped (fst (run (mount False 0 idle) revertedStart)) = 1
   \<and> fallingEdges False (fst (run (mount False 0 idle) revertedStart)) = 1
   \<and> wasScreenSharing staleSource \<and> \<not> validateScreenSharingState staleSource
   \<and> notifications screenSharingStopped (validationTick staleSource) = 1
   \<and> Stop ScreenCapture \<in> set (validationTick staleSource)
   \<and> Stop Webcam \<notin> set (validationTick staleSource)"
proof -
  have n: "notifications screenSharingStopped (fst (run (mount False 0 idle) revertedStart)) = 1"
    by code_simp
  have h: "wasScreenSharing staleSource \<and> \<not> validateScreenSharingState staleSource"
    by (simp add: validate_iff staleSource_def initialBindings_def idle_def notStreaming_def)
  have s: "isStreaming (screenCapture staleSource) \<and> \<not> isStreaming (webcam staleSource)"
    by (simp add: staleSource_def initialBindings_def idle_def notStreaming_def)
  from C2_stopped_once_per_falling_edge [of False 0 idle revertedStart staleSource] n h s
  show ?thesis by simp
qed

text \<open>
  C3, as stated, fails: the session \<open>externalOnly\<close> is active (it validates and
  \<open>wasScreenSharing\<close> is set), nobody is speaking and the last user speech lies 15000 ms
  back, yet the heartbeat tick sends nothing, because no source reports \<open>isStreaming\<close>.
\<close>

theorem C3_counterexample:
  "validateScreenSharingState externalOnly \<and> wasScreenSharing externalOnly
   \<and> \<not> (cur_isAISpeaking quiet \<or> cur_isUserSpeaking quiet)
   \<and> 20000 - cur_lastUserSpeechTime quiet > 10000
   \<and> heartbeatTick externalOnly quiet 20000 = []"
  by (simp add: validate_iff externalOnly_def initialBindings_def idle_def notStreaming_def
      quiet_def initialRef_def heartbeatTick_def)

text \<open>
  C3, amended. On every heartbeat tick a coaching-trigger message is sent if and only if
  at least one of the two capture sources reports \<open>isStreaming\<close>, neither the user nor
  the AI is marked speaking, and more than 10000 ms have passed since the last start of
  user speech. In particular no message is sent within the quiet window, and a tick
  leaves the state of the component as it is: nothing is queued for a later tick. In
  every execution the ref that the tick reads holds the speech state of the last render:
  when a coaching-trigger message is sent, neither flag is set there and the last start
  of user speech lies more than 10000 ms back.
\<close>

theorem C3_heartbeat_gate:
  "heartbeatTick c current now =
     (if (isStreaming (screenCapture c) \<or> isStreaming (webcam c))
         \<and> \<not> (cur_isAISpeaking current \<or> cur_isUserSpeaking current)
         \<and> now - cur_lastUserSpeechTime current > 10000
      then [Send (coachingInstruction (activeGame c))] else [])
   \<and> (now - cur_lastUserSpeechTime current \<le> 10000 \<longrightarrow> heartbeatTick c current now = [])
   \<and> snd (step fresh now TickIntervalFires s) = s
   \<and> (Send (coachingInstruction g)
         \<in> set (fst (step fresh now e (snd (run (mount fresh0 now0 q) es))))
       \<longrightarrow> \<not> isAISpeaking (rendered (snd (run (mount fresh0 now0 q) es)))
           \<and> \<not> isUserSpeaking (rendered (snd (run (mount fresh0 now0 q) es)))
           \<and> now - lastUserSpeechTime (rendered (snd (run (mount fresh0 now0 q) es))) > 10000)"
proof -
  have tick: "heartbeatTick c current now =
     (if (isStreaming (screenCapture c) \<or> isStreaming (webcam c))
         \<and> \<not> (cur_isAISpeaking current \<or> cur_isUserSpeaking current)
         \<and> now - cur_lastUserSpeechTime current > 10000
      then [Send (coachingInstruction (activeGame c))] else [])"
    by (simp add: heartbeatTick_def Let_def)
  have window: "now - cur_lastUserSpeechTime current \<le> 10000
      \<longrightarrow> heartbeatTick c current now = []"
    by (simp add: heartbeatTick_def Let_def)
  have same: "snd (step fresh now TickIntervalFires s) = s"
    by (simp split: option.splits)
  from tick window same heartbeat_reads_current_speech [of g fresh now e fresh0 now0 q es]
  show ?thesis by blast
qed

theorem C3_heartbeat_gate_witness:
  "heartbeatTick staleSource quiet 20000 = [Send (coachingInstruction (Some EAFC))]
   \<and> (8000 - cur_lastUserSpeechTime quiet \<le> 10000 \<and> heartbeatTick staleSource quiet 8000 = [])
   \<and> Send (coachingInstruction (Some EAFC))
       \<in> set (fst (step False 16000 TickIntervalFires
                     (snd (run (mount False 0 idle)
                            [(False, 5000, StreamsChanged sharing (Some 1)),
                             (False, 6000, TimeoutFires)]))))
   \<and> 16000 - lastUserSpeechTime
                (rendered (snd (run (mount False 0 idle)
                                 [(False, 5000, StreamsChanged sharing (Some 1)),
                                  (False, 6000, TimeoutFires)]))) > 10000"
proof -
  have sends: "Send (coachingInstruction (Some EAFC))
       \<in> set (fst (step False 16000 TickIntervalFires
                     (snd (run (mount False 0 idle)
                            [(False, 5000, StreamsChanged sharing (Some 1)),
                             (False, 6000, TimeoutFires)]))))"
    by code_simp
  have early: "8000 - cur_lastUserSpeechTime quiet \<le> 10000"
    by (simp add: quiet_def initialRef_def)
  have late: "(isStreaming (screenCapture staleSource) \<or> isStreaming (webcam staleSource))
      \<and> \<not> (cur_isAISpeaking quiet \<or> cur_isUserSpeaking quiet)
      \<and> 20000 - cur_lastUserSpeechTime quiet > 10000
      \<and> activeGame staleSource = Some EAFC"
    by (simp add: staleSource_def initialBindings_def idle_def notStreaming_def quiet_def
        initialRef_def)
  from C3_heartbeat_gate [of staleSource quiet 20000]
    C3_heartbeat_gate [of staleSource quiet 8000]
    C3_heartbeat_gate [where now = 16000 and fresh = False and g = "Some EAFC"
      and e = TickIntervalFires and ?fresh0.0 = False and ?now0.0 = 0 and q = idle
      and es = "[(False, 5000, StreamsChanged sharing (Some 1)), (False, 6000, TimeoutFires)]"]
    sends early late
  show ?thesis by simp
qed

text \<open>
  C4. In every execution a coaching-trigger message is sent only by a tick of the
  heartbeat interval, and only while the session is active: the last render validates,
  and, when the timers fire in the order in which they are due, \<open>wasScreenSharing\<close> is
  set.
\<close>

theorem C4_heartbeat_only_while_session_active:
  "Send (coachingInstruction g)
     \<in> set (fst (step fresh now e (snd (run (mount fresh0 now0 q) es))))
   \<longrightarrow> e = TickIntervalFires
       \<and> validateScreenSharingState (rendered (snd (run (mount fresh0 now0 q) es)))
       \<and> (timersInDueOrder (snd (run (mount fresh0 now0 q) es))
            \<longrightarrow> wasScreenSharing (rendered (snd (run (mount fresh0 now0 q) es))))"
proof
  let ?s = "snd (run (mount fresh0 now0 q) es)"
  assume m: "Send (coachingInstruction g) \<in> set (fst (step fresh now e ?s))"
  note c = reachable_closuresCurrent [of fresh0 now0 q es]
  from step_coaching [OF c m] have e: "e = TickIntervalFires"
    and v: "validateScreenSharingState (rendered ?s)" by simp_all
  from m e obtain r k where "tickInterval ?s = Some (r, k)"
    by (auto split: option.splits)
  from tick_after_settle [OF c reachable_settleAhead _ this] e v
  show "e = TickIntervalFires \<and> validateScreenSharingState (rendered ?s)
        \<and> (timersInDueOrder ?s \<longrightarrow> wasScreenSharing (rendered ?s))"
    by simp
qed

theorem C4_heartbeat_witness:
  "Send (coachingInstruction (Some EAFC))
     \<in> set (fst (step False 16000 TickIntervalFires
                   (snd (run (mount False 0 idle)
                          [(False, 5000, StreamsChanged sharing (Some 1)),
                           (False, 6000, TimeoutFires)]))))
   \<and> timersInDueOrder
        (snd (run (mount False 0 idle)
               [(False, 5000, StreamsChanged sharing (Some 1)), (False, 6000, TimeoutFires)]))
   \<and> validateScreenSharingState
        (rendered (snd (run (mount False 0 idle)
                         [(False, 5000, StreamsChanged sharing (Some 1)),
                          (False, 6000, TimeoutFires)])))
   \<and> wasScreenSharing
        (rendered (snd (run (mount False 0 idle)
                         [(False, 5000, StreamsChanged sharing (Some 1)),
                          (False, 6000, TimeoutFires)])))"
proof -
  have "Send (coachingInstruction (Some EAFC))
     \<in> set (fst (step False 16000 TickIntervalFires
                   (snd (run (mount False 0 idle)
                          [(False, 5000, StreamsChanged sharing (Some 1)),
                           (False, 6000, TimeoutFires)]))))"
    by code_simp
  moreover have "timersInDueOrder
        (snd (run (mount False 0 idle)
               [(False, 5000, StreamsChanged sharing (Some 1)), (False, 6000, TimeoutFires)]))"
    by code_simp
  ultimately show ?thesis
    using C4_heartbeat_only_while_session_active
         [of "Some EAFC" False 16000 TickIntervalFires False 0 idle
             "[(False, 5000, StreamsChanged sharing (Some 1)), (False, 6000, TimeoutFires)]"]
    by blast
qed

text \<open>
  C5, as stated, fails: the predicate is not free of side effects. Called with nothing
  shared, it writes two lines to the console.
\<close>

theorem C5_counterexample:
  "fst (validateScreenSharingStateLogged (initialBindings idle))
     = [validationDebug False False False False False False, validationFailed]"
  by (simp add: validateScreenSharingStateLogged_def initialBindings_def idle_def
      notStreaming_def js_and_def js_or_def)

text \<open>
  C5, amended. The session-validation predicate returns true if and only if at least one
  of the capture sources reports \<open>isStreaming\<close> with a stream handle that is not null, or
  at least one of the externally supplied stream handles (\<open>videoStream\<close>,
  \<open>activeVideoStream\<close>) is not null. What it returns and what it writes depend on the two
  capture sources and the two handles only. It is not free of I/O: every call writes two
  diagnostic lines to the console, its six inputs and its verdict.
\<close>

theorem C5_validate_iff_some_source_or_handle:
  "snd (validateScreenSharingStateLogged c)
     = ((\<exists>src \<in> set [screenCapture c, webcam c]. isStreaming src \<and> stream src \<noteq> None)
        \<or> (\<exists>h \<in> set [videoStream c, activeVideoStream c]. h \<noteq> None))
   \<and> validateScreenSharingState c = snd (validateScreenSharingStateLogged c)
   \<and> fst (validateScreenSharingStateLogged c)
     = [validationDebug
          (isStreaming (screenCapture c)) (stream (screenCapture c) \<noteq> None)
          (isStreaming (webcam c)) (stream (webcam c) \<noteq> None)
          (videoStream c \<noteq> None) (activeVideoStream c \<noteq> None),
        if snd (validateScreenSharingStateLogged c) then validationPassed else validationFailed]
   \<and> (screenCapture c = screenCapture c' \<and> webcam c = webcam c'
        \<and> videoStream c = videoStream c' \<and> activeVideoStream c = activeVideoStream c'
      \<longrightarrow> validateScreenSharingStateLogged c = validateScreenSharingStateLogged c')"
proof -
  have v: "snd (validateScreenSharingStateLogged c)
     = ((\<exists>src \<in> set [screenCapture c, webcam c]. isStreaming src \<and> stream src \<noteq> None)
        \<or> (\<exists>h \<in> set [videoStream c, activeVideoStream c]. h \<noteq> None))"
    using validate_iff [of c] by (auto simp: validateScreenSharingState_def)
  have w: "fst (validateScreenSharingStateLogged c)
     = [validationDebug
          (isStreaming (screenCapture c)) (stream (screenCapture c) \<noteq> None)
          (isStreaming (webcam c)) (stream (webcam c) \<noteq> None)
          (videoStream c \<noteq> None) (activeVideoStream c \<noteq> None),
        if snd (validateScreenSharingStateLogged c) then validationPassed else validationFailed]"
    by (simp add: validateScreenSharingStateLogged_def Let_def truthy_handle)
  have d: "screenCapture c = screenCapture c' \<and> webcam c = webcam c'
        \<and> videoStream c = videoStream c' \<and> activeVideoStream c = activeVideoStream c'
      \<longrightarrow> validateScreenSharingStateLogged c = validateScreenSharingStateLogged c'"
    by (simp add: validateScreenSharingStateLogged_def)
  from v w d show ?thesis by (simp add: validateScreenSharingState_def)
qed

theorem C5_validate_witness:
  "snd (validateScreenSharingStateLogged (initialBindings sharing))
   \<and> fst (validateScreenSharingStateLogged (initialBindings sharing))
     = [validationDebug True True False False True False, validationPassed]
   \<and> validateScreenSharingStateLogged ((initialBindings sharing)\<lparr>muted := True, inVolume := 1\<rparr>)
     = validateScreenSharingStateLogged (initialBindings sharing)"
  using C5_validate_iff_some_source_or_handle
          [of "initialBindings sharing" "(initialBindings sharing)\<lparr>muted := True, inVolume := 1\<rparr>"]
        C5_validate_iff_some_source_or_handle
          [of "(initialBindings sharing)\<lparr>muted := True, inVolume := 1\<rparr>" "initialBindings sharing"]
  by (simp add: initialBindings_def sharing_def notStreaming_def)

text \<open>
  Each of the three paths that report a sharing edge (the settle timeout for the start,
  the body of the main effect and the forced stop for the stop) hands its message to
  \<^verbatim>\<open>client.send\<close> only when \<open>connected\<close> is true and \<open>muted\<close> is false in its closure;
  otherwise it still dispatches its event and sets \<open>wasScreenSharing\<close>, and sends
  nothing.
\<close>

lemma edge_paths_guard_by_closure:
  "(Send m \<in> set (settleTimeout c) \<union> set (performed (mainEffect c)) \<union> set (validationTick c)
      \<longrightarrow> connected c \<and> \<not> muted c)
   \<and> (\<not> (connected c \<and> \<not> muted c) \<longrightarrow>
        settleTimeout c =
          (if validateScreenSharingState c
           then [DispatchEvent screenSharingStarted (activeGame c), SetWasScreenSharing True]
           else [])
        \<and> performed (mainEffect c) =
          (if \<not> validateScreenSharingState c \<and> wasScreenSharing c
           then [DispatchEvent screenSharingStopped (activeGame c), SetWasScreenSharing False]
           else [])
        \<and> validationTick c =
          (if wasScreenSharing c \<and> \<not> validateScreenSharingState c
           then [SetWasScreenSharing False]
                @ (if isStreaming (screenCapture c) then [Stop ScreenCapture] else [])
                @ (if isStreaming (webcam c) then [Stop Webcam] else [])
                @ [DispatchEvent screenSharingStopped (activeGame c)]
           else []))"
  by (auto simp: settleTimeout_def mainEffect_def validationTick_def sendIfLive_def Let_def
      split: if_splits)

text \<open>
  C6. The claim: on every sharing edge the transition message is handed to the outbound
  channel only when the session is connected and not muted. The code does otherwise on
  the started path. In \<open>mutedStart\<close> the session is muted when the settle timeout fires
  (\<open>muted\<close> is true in the last render), but the timeout tests the \<open>muted\<close> of the render
  that registered it, and sends the started message.
\<close>

theorem C6_started_message_sent_while_muted:
  "muted (rendered (snd (run (mount False 0 idle) (butlast mutedStart))))
   \<and> fst (step False 6000 TimeoutFires (snd (run (mount False 0 idle) (butlast mutedStart))))
     = [DispatchEvent screenSharingStarted (Some EAFC), SetWasScreenSharing True,
        Send (screenShareNotification (Some EAFC))]"
  by code_simp

text \<open>
  C7. A volume sample above the threshold that arrives while the user is not speaking
  sets \<open>lastUserSpeechTime\<close> to the current time; nothing but a volume sample of the
  input side changes \<open>lastUserSpeechTime\<close>, and the effect that tracks the output volume
  does not set it; and while the clock does not run backwards (and starts at or after
  0, the initial value of the cell), \<open>lastUserSpeechTime\<close> never decreases in an
  execution. In every execution the user-speaking flag is the one the last input volume
  gives, so it falls when the volume falls, and a volume sample sets
  \<open>lastUserSpeechTime\<close> to the current time exactly when it is above the threshold and
  the volume before it was not.
\<close>

theorem C7_lastUserSpeechTime_set_by_user_speech_only_and_monotone:
  "(\<not> isUserSpeaking (rendered s) \<and> inVolume (rendered s) \<le> 0.015 \<and> v > 0.015 \<longrightarrow>
      lastUserSpeechTime (rendered (snd (step fresh now (VolumeSample v) s))) = now
      \<and> isUserSpeaking (rendered (snd (step fresh now (VolumeSample v) s))))
   \<and> ((\<forall>v. e \<noteq> VolumeSample v) \<longrightarrow>
        lastUserSpeechTime (rendered (snd (step fresh now e s)))
          = lastUserSpeechTime (rendered s))
   \<and> lastUserSpeechTime (aiSpeakingEffect c p) = lastUserSpeechTime p
   \<and> (sorted (0 # now0 # map (fst \<circ> snd) (es @ es')) \<longrightarrow>
        lastUserSpeechTime (rendered (snd (run (mount fresh0 now0 q) es)))
          \<le> lastUserSpeechTime (rendered (snd (run (mount fresh0 now0 q) (es @ es')))))
   \<and> isUserSpeaking (rendered (snd (run (mount fresh0 now0 q) es)))
       = (inVolume (rendered (snd (run (mount fresh0 now0 q) es))) > 0.015)
   \<and> isUserSpeaking
         (rendered (snd (step fresh now (VolumeSample v) (snd (run (mount fresh0 now0 q) es)))))
       = (v > 0.015)
   \<and> lastUserSpeechTime
         (rendered (snd (step fresh now (VolumeSample v) (snd (run (mount fresh0 now0 q) es)))))
       = (if v > 0.015 \<and> \<not> inVolume (rendered (snd (run (mount fresh0 now0 q) es))) > 0.015
          then now
          else lastUserSpeechTime (rendered (snd (run (mount fresh0 now0 q) es))))"
  using step_speech_start [of s v fresh now] step_last_frame [of e fresh now s]
    execution_last_monotone [of now0 es es' fresh0 q]
    reachable_settled [of fresh0 now0 q es]
    step_sample [OF reachable_settled, of fresh now v fresh0 now0 q es]
  by (simp add: aiSpeakingEffect_def userSpeechSettled_def)

theorem C7_lastUserSpeechTime_witness:
  "lastUserSpeechTime
     (rendered (snd (step False 7000 (VolumeSample 0.5) (snd (mount False 0 idle))))) = 7000
   \<and> lastUserSpeechTime
       (rendered (snd (step False 9000 (NewProps (idle\<lparr>volume := 0.5\<rparr>))
                        (snd (run (mount False 0 idle) [(False, 7000, VolumeSample 0.5)])))))
     = lastUserSpeechTime
         (rendered (snd (run (mount False 0 idle) [(False, 7000, VolumeSample 0.5)])))
   \<and> lastUserSpeechTime
       (rendered (snd (run (mount False 0 idle) [(False, 7000, VolumeSample 0.5)])))
     \<le> lastUserSpeechTime
         (rendered (snd (run (mount False 0 idle)
            ([(False, 7000, VolumeSample 0.5)]
             @ [(False, 8000, VolumeSample 0), (False, 9000, VolumeSample 0.5)]))))
   \<and> \<not> isUserSpeaking
         (rendered (snd (run (mount False 0 idle)
            [(False, 7000, VolumeSample 0.5), (False, 8000, VolumeSample 0)])))
   \<and> lastUserSpeechTime
       (rendered (snd (step False 9000 (VolumeSample 0.5)
          (snd (run (mount False 0 idle)
             [(False, 7000, VolumeSample 0.5), (False, 8000, VolumeSample 0)]))))) = 9000"
proof -
  have h1: "\<not> isUserSpeaking (rendered (snd (mount False 0 idle)))
            \<and> inVolume (rendered (snd (mount False 0 idle))) \<le> 0.015 \<and> (0.5::real) > 0.015"
    by code_simp
  have h2: "\<forall>v. NewProps (idle\<lparr>volume := 0.5\<rparr>) \<noteq> VolumeSample v" by simp
  have h3: "sorted (0 # 0 # map (fst \<circ> snd)
              ([(False, 7000::int, VolumeSample 0.5)]
               @ [(False, 8000, VolumeSample 0), (False, 9000, VolumeSample 0.5)]))"
    by simp
  have h4: "\<not> inVolume (rendered (snd (run (mount False 0 idle)
              [(False, 7000, VolumeSample 0.5), (False, 8000, VolumeSample 0)]))) > 0.015
            \<and> (0.5::real) > 0.015"
    by code_simp
  from C7_lastUserSpeechTime_set_by_user_speech_only_and_monotone
         [of "snd (mount False 0 idle)" "0.5" False 7000 _ _ _ 0
             "[(False, 7000, VolumeSample 0.5)]"
             "[(False, 8000, VolumeSample 0), (False, 9000, VolumeSample 0.5)]" False idle]
       C7_lastUserSpeechTime_set_by_user_speech_only_and_monotone
         [of "snd (run (mount False 0 idle) [(False, 7000, VolumeSample 0.5)])" _ False 9000
             "NewProps (idle\<lparr>volume := 0.5\<rparr>)"]
       C7_lastUserSpeechTime_set_by_user_speech_only_and_monotone
         [where v = "0.5" and fresh = False and now = 9000 and ?fresh0.0 = False
            and ?now0.0 = 0 and q = idle
            and es = "[(False, 7000, VolumeSample 0.5), (False, 8000, VolumeSample 0)]"]
       h1 h2 h3 h4
  show ?thesis by simp
qed

text \<open>
  What the frame sampler sends: nothing when the video element or the canvas is missing
  or when both dimensions of the canvas are zero; otherwise one part, whose data is
  empty when one dimension of the canvas is zero.
\<close>

lemma sendVideoFrame_sent:
  "sent (sendVideoFrame isConnected (Some v) True)
     = (if videoWidth v < 4 \<and> videoHeight v < 4 then []
        else if videoWidth v < 4 \<or> videoHeight v < 4 then [ImageJpeg emptyString]
        else [ImageJpeg (jpegOfCanvas (videoWidth v div 4) (videoHeight v div 4))])
   \<and> sent (sendVideoFrame isConnected None canvas) = []
   \<and> sent (sendVideoFrame isConnected video False) = []"
  by (auto simp: sendVideoFrame_def toDataURL_def Let_def split: option.splits)


text \<open>
  C9. A heartbeat tick sends nothing when neither the screen capture nor the webcam
  reports \<open>isStreaming\<close>, whatever the external stream handles are; the tick does not
  read the stream handles at all; so a session that validates through external streams
  only, with no source streaming, gets no heartbeat (in every execution, no step sends
  a coaching-trigger message while neither source of the last render reports
  \<open>isStreaming\<close>), while a source, the screen capture or the webcam, with
  \<open>isStreaming\<close> set and no stream handle passes the guard of the tick.
\<close>

theorem C9_tick_guard_reads_flags_only:
  "(\<not> isStreaming (screenCapture c) \<and> \<not> isStreaming (webcam c)
      \<longrightarrow> heartbeatTick c current now = [])
   \<and> heartbeatTick
        (c\<lparr> videoStream := v, activeVideoStream := a,
            screenCapture := (screenCapture c)\<lparr>stream := h\<rparr>,
            webcam := (webcam c)\<lparr>stream := h'\<rparr> \<rparr>) current now
      = heartbeatTick c current now
   \<and> (isStreaming (screenCapture c) \<and> stream (screenCapture c) = None
        \<and> \<not> (cur_isAISpeaking current \<or> cur_isUserSpeaking current)
        \<and> now - cur_lastUserSpeechTime current > 10000
      \<longrightarrow> heartbeatTick c current now = [Send (coachingInstruction (activeGame c))])
   \<and> (isStreaming (webcam c) \<and> stream (webcam c) = None
        \<and> \<not> (cur_isAISpeaking current \<or> cur_isUserSpeaking current)
        \<and> now - cur_lastUserSpeechTime current > 10000
      \<longrightarrow> heartbeatTick c current now = [Send (coachingInstruction (activeGame c))])
   \<and> (\<not> isStreaming (screenCapture (rendered (snd (run (mount fresh0 now0 q) es))))
        \<and> \<not> isStreaming (webcam (rendered (snd (run (mount fresh0 now0 q) es))))
      \<longrightarrow> Send (coachingInstruction g)
            \<notin> set (fst (step fresh now e (snd (run (mount fresh0 now0 q) es)))))"
proof -
  have tick: "(\<not> isStreaming (screenCapture c) \<and> \<not> isStreaming (webcam c)
      \<longrightarrow> heartbeatTick c current now = [])
   \<and> heartbeatTick
        (c\<lparr> videoStream := v, activeVideoStream := a,
            screenCapture := (screenCapture c)\<lparr>stream := h\<rparr>,
            webcam := (webcam c)\<lparr>stream := h'\<rparr> \<rparr>) current now
      = heartbeatTick c current now
   \<and> (isStreaming (screenCapture c) \<and> stream (screenCapture c) = None
        \<and> \<not> (cur_isAISpeaking current \<or> cur_isUserSpeaking current)
        \<and> now - cur_lastUserSpeechTime current > 10000
      \<longrightarrow> heartbeatTick c current now = [Send (coachingInstruction (activeGame c))])
   \<and> (isStreaming (webcam c) \<and> stream (webcam c) = None
        \<and> \<not> (cur_isAISpeaking current \<or> cur_isUserSpeaking current)
        \<and> now - cur_lastUserSpeechTime current > 10000
      \<longrightarrow> heartbeatTick c current now = [Send (coachingInstruction (activeGame c))])"
    by (simp add: heartbeatTick_def Let_def)
  from tick step_coaching [OF reachable_closuresCurrent, of g fresh now e fresh0 now0 q es]
  show ?thesis by blast
qed

theorem C9_tick_guard_witness:
  "validateScreenSharingState externalOnly \<and> heartbeatTick externalOnly quiet 20000 = []
   \<and> \<not> validateScreenSharingState staleSource
   \<and> heartbeatTick staleSource quiet 20000 = [Send (coachingInstruction (Some EAFC))]
   \<and> \<not> validateScreenSharingState staleWebcam
   \<and> \<not> isStreaming (screenCapture staleWebcam)
   \<and> heartbeatTick staleWebcam quiet 20000 = [Send (coachingInstruction (Some EAFC))]
   \<and> validateScreenSharingState
        (rendered (snd (run (mount False 0 idle)
           [(False, 5000, StreamsChanged (idle\<lparr>videoStream := Some 1\<rparr>) (Some 1)),
            (False, 6000, TimeoutFires)])))
   \<and> Send (coachingInstruction (Some EAFC))
        \<notin> set (fst (step False 16000 TickIntervalFires
                      (snd (run (mount False 0 idle)
                         [(False, 5000, StreamsChanged (idle\<lparr>videoStream := Some 1\<rparr>) (Some 1)),
                          (False, 6000, TimeoutFires)]))))"
proof -
  have handlers: "validateScreenSharingState externalOnly
      \<and> \<not> isStreaming (screenCapture externalOnly) \<and> \<not> isStreaming (webcam externalOnly)
      \<and> \<not> validateScreenSharingState staleSource
      \<and> isStreaming (screenCapture staleSource) \<and> stream (screenCapture staleSource) = None
      \<and> \<not> validateScreenSharingState staleWebcam
      \<and> \<not> isStreaming (screenCapture staleWebcam)
      \<and> isStreaming (webcam staleWebcam) \<and> stream (webcam staleWebcam) = None
      \<and> activeGame staleWebcam = Some EAFC
      \<and> \<not> (cur_isAISpeaking quiet \<or> cur_isUserSpeaking quiet)
      \<and> 20000 - cur_lastUserSpeechTime quiet > 10000
      \<and> activeGame staleSource = Some EAFC"
    by (simp add: validate_iff externalOnly_def staleSource_def staleWebcam_def
        initialBindings_def idle_def notStreaming_def quiet_def initialRef_def)
  have state: "validateScreenSharingState
        (rendered (snd (run (mount False 0 idle)
           [(False, 5000, StreamsChanged (idle\<lparr>videoStream := Some 1\<rparr>) (Some 1)),
            (False, 6000, TimeoutFires)])))
     \<and> \<not> isStreaming (screenCapture (rendered (snd (run (mount False 0 idle)
           [(False, 5000, StreamsChanged (idle\<lparr>videoStream := Some 1\<rparr>) (Some 1)),
            (False, 6000, TimeoutFires)]))))
     \<and> \<not> isStreaming (webcam (rendered (snd (run (mount False 0 idle)
           [(False, 5000, StreamsChanged (idle\<lparr>videoStream := Some 1\<rparr>) (Some 1)),
            (False, 6000, TimeoutFires)]))))"
    by code_simp
  from C9_tick_guard_reads_flags_only [of externalOnly quiet 20000]
    C9_tick_guard_reads_flags_only [of staleSource quiet 20000]
    C9_tick_guard_reads_flags_only [of staleWebcam quiet 20000]
    C9_tick_guard_reads_flags_only [where ?fresh0.0 = False and ?now0.0 = 0 and q = idle
      and es = "[(False, 5000, StreamsChanged (idle\<lparr>videoStream := Some 1\<rparr>) (Some 1)),
                 (False, 6000, TimeoutFires)]"
      and g = "Some EAFC" and fresh = False and now = 16000 and e = TickIntervalFires]
    handlers state
  show ?thesis by simp
qed

text \<open>
  C10. After a completed \<^verbatim>\<open>changeStreams(next)\<close>, whether \<^verbatim>\<open>next.start()\<close> resolved or
  rejected, \<^verbatim>\<open>stop()\<close> has been called on every source other than \<open>next\<close> (on every
  source when there is no \<open>next\<close>), none of those is streaming, and so at most one of the
  webcam and the screen capture is streaming, from whatever state the adapters were in.
\<close>

theorem C10_changeStreams_stops_the_others:
  "(\<forall>k. Some k \<noteq> next \<longrightarrow>
       Stop k \<in> set (fst (changeStreams next outcome on))
       \<and> \<not> snd (changeStreams next outcome on) k)
   \<and> \<not> (snd (changeStreams next outcome on) Webcam
         \<and> snd (changeStreams next outcome on) ScreenCapture)"
proof -
  have others: "Some k \<noteq> next \<Longrightarrow>
      Stop k \<in> set (fst (changeStreams next outcome on))
      \<and> \<not> snd (changeStreams next outcome on) k" for k
    by (cases k; cases "next")
       (auto simp: changeStreams_def videoStreams_def adapterStop_def adapterStart_def
          split: option.splits)
  have "Some Webcam \<noteq> next \<or> Some ScreenCapture \<noteq> next"
    by (cases "next") auto
  with others show ?thesis by blast
qed

theorem C10_changeStreams_witness:
  "Stop Webcam \<in> set (fst (changeStreams (Some ScreenCapture) (Some 1) (\<lambda>k. True)))
   \<and> \<not> snd (changeStreams (Some ScreenCapture) (Some 1) (\<lambda>k. True)) Webcam
   \<and> snd (changeStreams (Some ScreenCapture) (Some 1) (\<lambda>k. True)) ScreenCapture"
  using C10_changeStreams_stops_the_others [of "Some ScreenCapture" "Some 1" "\<lambda>k. True"]
  by (simp add: changeStreams_def adapterStart_def videoStreams_def adapterStop_def)

end
